theory Spec2Isabelle
  imports Main "HOL-Library.AList"
begin

section \<open>The universal multiplayer relay (universal-server.js)\<close>

text \<open>
  The server keeps two dictionaries, \<open>gameRooms\<close> (gameId to roomId to room) and
  \<open>activePlayers\<close> (socket id to player record), and a record of counters. Each handler
  of the source becomes a function from the server state to the server state.

  A JavaScript object is an association list in the order its properties were defined;
  reading a property is \<open>map_of\<close>, writing one is \<open>AList.update\<close> (an existing key keeps
  its place, a new key goes last), \<open>delete\<close> is \<open>AList.delete\<close>. The theorems below read
  objects through \<open>map_of\<close> only, so they do not depend on the place JavaScript gives to
  integer-like keys when it enumerates an object.
  Only the own properties of an object are modelled: the identifiers a client supplies
  (game ids, room ids, payload keys) are taken not to be names that every object
  inherits, such as "constructor" or "__proto__". Identifiers are strings; a room id in a
  message may also be \<open>null\<close> (\<open>None\<close>), which is what the client sends before it learns
  its room.

  \<open>Date.now()\<close> is a parameter \<open>now\<close> of each handler: one run of a handler reads one
  clock value. \<open>log\<close> only writes to the console and is left out.
\<close>

subsection \<open>JavaScript values\<close>

datatype jsval =
    Undefined
  | Null
  | Bool bool
  | Num int
  | Str string
  | Obj "(string \<times> jsval) list"

type_synonym obj = "(string \<times> jsval) list"

text \<open>Decimal rendering of an index, for the keys that spreading a string produces.\<close>

definition digit10 :: "nat \<Rightarrow> char" where
  "digit10 d = ''0123456789'' ! d"

fun decimal :: "nat \<Rightarrow> string" where
  "decimal n = (if n < 10 then [digit10 n] else decimal (n div 10) @ [digit10 (n mod 10)])"

text \<open>
  \<open>...v\<close> inside an object literal: the own enumerable properties of \<open>v\<close>. An object gives
  its properties, a string its characters under the keys 0, 1, ...; \<open>undefined\<close>, \<open>null\<close>,
  booleans and numbers give nothing. (An array is an object whose keys are its indices.)
\<close>

fun spread :: "jsval \<Rightarrow> obj" where
  "spread (Obj kvs) = kvs"
| "spread (Str cs) = map (\<lambda>(i, c). (decimal i, Str [c])) (zip [0 ..< length cs] cs)"
| "spread _ = []"

text \<open>An object literal defines its properties from left to right; a later one overwrites.\<close>

definition objLit :: "obj \<Rightarrow> obj" where
  "objLit props = fold (\<lambda>(k, v). AList.update k v) props []"

text \<open>Truthiness of a value that is \<open>null\<close>/\<open>undefined\<close> or a string.\<close>

definition truthy :: "string option \<Rightarrow> bool" where
  "truthy x = (case x of None \<Rightarrow> False | Some s \<Rightarrow> s \<noteq> [])"

text \<open>A value used as a property key is converted to a string; \<open>null\<close> becomes "null".\<close>

definition keyOf :: "string option \<Rightarrow> string" where
  "keyOf x = (case x of None \<Rightarrow> ''null'' | Some s \<Rightarrow> s)"

subsection \<open>generateRoomId\<close>

text \<open>
  \<open>Math.random().toString(36).substring(2, 8).toUpperCase()\<close>. The argument \<open>rendering\<close>
  is the string \<open>Math.random().toString(36)\<close>: the base-36 numeral of the random number,
  which is "0" for 0 and otherwise "0." followed by its base-36 digits (as many as the
  number needs: 0.5 is "0.i").
\<close>

definition substring :: "string \<Rightarrow> nat \<Rightarrow> nat \<Rightarrow> string" where
  "substring s a b = take (max a b - min a b) (drop (min a b) s)"

definition toUpperCase_char :: "char \<Rightarrow> char" where
  "toUpperCase_char c =
     (case map_of (zip ''abcdefghijklmnopqrstuvwxyz'' ''ABCDEFGHIJKLMNOPQRSTUVWXYZ'') c of
        None \<Rightarrow> c | Some u \<Rightarrow> u)"

definition toUpperCase :: "string \<Rightarrow> string" where
  "toUpperCase s = map toUpperCase_char s"

definition generateRoomId :: "string \<Rightarrow> string" where
  "generateRoomId rendering = toUpperCase (substring rendering 2 8)"

definition base36_lower :: "char set" where
  "base36_lower = set ''0123456789abcdefghijklmnopqrstuvwxyz''"

definition base36_upper :: "char set" where
  "base36_upper = set ''0123456789ABCDEFGHIJKLMNOPQRSTUVWXYZ''"

subsection \<open>The state\<close>

record activePlayer =
  ap_id :: string
  ap_roomId :: "string option"
  ap_gameId :: "string option"
  ap_joinedAt :: int
  ap_lastActivity :: int

record room =
  room_roomId :: string
  room_gameId :: string
  players :: "(string \<times> obj) list"
  createdAt :: int
  lastActivity :: int

record stats =
  startTime :: int
  connections :: nat
  messagesSent :: nat
  messagesReceived :: nat
  peakConcurrentPlayers :: nat

text \<open>The messages the server emits, with their payload fields in the source's order.\<close>

datatype message =
    RoomJoined string string string nat
  | PlayerJoined string jsval
  | PlayerLeft string int
  | StateUpdate string jsval int
  | GameEvent string jsval jsval int
  | RoomClosed string string

text \<open>
  Besides the three globals of the source, the state holds what socket.io keeps: the
  connected sockets (\<open>io.sockets.sockets\<close>), the members of each socket.io room
  (\<open>adapter\<close>, in the order they joined), and the packets handed to each socket
  (\<open>outbox\<close>: recipient and message, oldest first).
\<close>

record server =
  gameRooms :: "(string \<times> (string \<times> room) list) list"
  activePlayers :: "(string \<times> activePlayer) list"
  serverStats :: stats
  sockets :: "string list"
  adapter :: "string \<Rightarrow> string list"
  outbox :: "(string \<times> message) list"

datatype error = TypeError

definition INACTIVITY_TIMEOUT :: int where
  "INACTIVITY_TIMEOUT = 30 * 60 * 1000"

definition CLEANUP_INTERVAL :: int where
  "CLEANUP_INTERVAL = 15 * 60 * 1000"

subsection \<open>socket.io\<close>

text \<open>
  The members of the room a broadcast names. A room that is \<open>null\<close> has no members.
\<close>

definition members :: "server \<Rightarrow> string option \<Rightarrow> string list" where
  "members s r = (case r of None \<Rightarrow> [] | Some n \<Rightarrow> adapter s n)"

text \<open>\<open>socket.emit\<close>: to the socket itself.\<close>

definition socket_emit :: "string \<Rightarrow> message \<Rightarrow> server \<Rightarrow> server" where
  "socket_emit sid m s = s\<lparr>outbox := outbox s @ [(sid, m)]\<rparr>"

text \<open>\<open>socket.to(r).emit\<close>: to every member of the room except the socket.\<close>

definition socket_to_emit :: "string \<Rightarrow> string option \<Rightarrow> message \<Rightarrow> server \<Rightarrow> server" where
  "socket_to_emit sid r m s =
     s\<lparr>outbox := outbox s @ map (\<lambda>t. (t, m)) (filter (\<lambda>t. t \<noteq> sid) (members s r))\<rparr>"

text \<open>\<open>io.to(r).emit\<close>: to every member of the room.\<close>

definition io_to_emit :: "string option \<Rightarrow> message \<Rightarrow> server \<Rightarrow> server" where
  "io_to_emit r m s = s\<lparr>outbox := outbox s @ map (\<lambda>t. (t, m)) (members s r)\<rparr>"

text \<open>\<open>socket.join(r)\<close>: the room is a set, joining twice changes nothing.\<close>

definition socket_join :: "string \<Rightarrow> string \<Rightarrow> server \<Rightarrow> server" where
  "socket_join sid r s =
     (if sid \<in> set (adapter s r) then s
      else s\<lparr>adapter := (adapter s)(r := adapter s r @ [sid])\<rparr>)"

text \<open>
  A new socket is registered and joins the room named by its own id, before the
  \<open>connection\<close> handler runs.
\<close>

definition socket_open :: "string \<Rightarrow> server \<Rightarrow> server" where
  "socket_open sid s = socket_join sid sid (s\<lparr>sockets := sockets s @ [sid]\<rparr>)"

text \<open>
  A closing socket leaves all its rooms and is unregistered, before the \<open>disconnect\<close>
  handler runs.
\<close>

definition socket_close :: "string \<Rightarrow> server \<Rightarrow> server" where
  "socket_close sid s =
     s\<lparr>sockets := removeAll sid (sockets s),
       adapter := (\<lambda>r. removeAll sid (adapter s r))\<rparr>"

subsection \<open>The counters\<close>

definition received :: "server \<Rightarrow> server" where
  "received s = s\<lparr>serverStats := (serverStats s)\<lparr>messagesReceived := messagesReceived (serverStats s) + 1\<rparr>\<rparr>"

definition sent :: "server \<Rightarrow> server" where
  "sent s = s\<lparr>serverStats := (serverStats s)\<lparr>messagesSent := messagesSent (serverStats s) + 1\<rparr>\<rparr>"

subsection \<open>The handlers\<close>

text \<open>\<open>io.on('connection', ...)\<close>, up to the registration of the socket's handlers.\<close>

definition connection :: "int \<Rightarrow> string \<Rightarrow> server \<Rightarrow> server" where
  "connection now sid s =
     (let st = serverStats s;
          st1 = st\<lparr>connections := connections st + 1,
                   messagesReceived := messagesReceived st + 1\<rparr>;
          currentPlayerCount = length (activePlayers s) + 1;
          st2 = (if currentPlayerCount > peakConcurrentPlayers st1
                 then st1\<lparr>peakConcurrentPlayers := currentPlayerCount\<rparr> else st1)
      in s\<lparr>serverStats := st2,
           activePlayers := AList.update sid
             \<lparr>ap_id = sid, ap_roomId = None, ap_gameId = None,
              ap_joinedAt = now, ap_lastActivity = now\<rparr> (activePlayers s)\<rparr>)"

text \<open>
  \<open>socket.on('joinGame', ...)\<close>. \<open>rendering\<close> is what \<open>Math.random().toString(36)\<close> gives
  if \<open>generateRoomId\<close> is called. Writing \<open>activePlayers[socket.id].roomId\<close> throws a
  TypeError when the socket has no player record.
\<close>

definition joinGame ::
  "int \<Rightarrow> string \<Rightarrow> string \<Rightarrow> string \<Rightarrow> string option \<Rightarrow> jsval \<Rightarrow> server \<Rightarrow> error + server" where
  "joinGame now rendering sid gameId roomId playerData s0 =
     (let s = received s0;
          targetRoomId = (if \<not> truthy roomId then generateRoomId rendering else the roomId);
          cat0 = (case map_of (gameRooms s) gameId of None \<Rightarrow> [] | Some c \<Rightarrow> c);
          room0 = (case map_of cat0 targetRoomId of
                     None \<Rightarrow> \<lparr>room_roomId = targetRoomId, room_gameId = gameId, players = [],
                              createdAt = now, lastActivity = now\<rparr>
                   | Some r \<Rightarrow> r);
          room1 = room0\<lparr>players := AList.update sid
                    (objLit ([(''id'', Str sid), (''joinedAt'', Num now), (''lastActivity'', Num now)]
                             @ spread playerData)) (players room0)\<rparr>;
          s1 = s\<lparr>gameRooms := AList.update gameId (AList.update targetRoomId room1 cat0) (gameRooms s)\<rparr>
      in case map_of (activePlayers s1) sid of
           None \<Rightarrow> Inl TypeError
         | Some p \<Rightarrow>
             let s2 = s1\<lparr>activePlayers := AList.update sid
                         (p\<lparr>ap_roomId := Some targetRoomId, ap_gameId := Some gameId\<rparr>)
                         (activePlayers s1)\<rparr>;
                 s3 = socket_join sid targetRoomId s2;
                 s4 = socket_emit sid
                        (RoomJoined targetRoomId gameId sid (length (players room1))) (sent s3);
                 s5 = socket_to_emit sid (Some targetRoomId) (PlayerJoined sid playerData) (sent s4)
             in Inr (fold (\<lambda>(id', player) t.
                             if id' \<noteq> sid then socket_emit sid (PlayerJoined id' (Obj player)) (sent t)
                             else t)
                          (players room1) s5))"

text \<open>\<open>socket.on('stateUpdate', ...)\<close>.\<close>

definition stateUpdate :: "int \<Rightarrow> string \<Rightarrow> string option \<Rightarrow> jsval \<Rightarrow> server \<Rightarrow> server" where
  "stateUpdate now sid roomId state s0 =
     (let s = received s0 in
      case map_of (activePlayers s) sid of
        None \<Rightarrow> s
      | Some player \<Rightarrow>
          if \<not> truthy (ap_roomId player) then s
          else
            let s1 = s\<lparr>activePlayers := AList.update sid (player\<lparr>ap_lastActivity := now\<rparr>)
                        (activePlayers s)\<rparr>;
                g = keyOf (ap_gameId player);
                r = keyOf roomId;
                s2 = (case map_of (gameRooms s1) g of
                        None \<Rightarrow> s1
                      | Some cat \<Rightarrow>
                          (case map_of cat r of
                             None \<Rightarrow> s1
                           | Some room0 \<Rightarrow>
                               let room1 = room0\<lparr>lastActivity := now\<rparr>;
                                   room2 = (case map_of (players room1) sid of
                                              None \<Rightarrow> room1
                                            | Some old \<Rightarrow>
                                                room1\<lparr>players := AList.update sid
                                                  (objLit (old @ spread state
                                                           @ [(''lastActivity'', Num now)]))
                                                  (players room1)\<rparr>)
                               in s1\<lparr>gameRooms := AList.update g (AList.update r room2 cat)
                                       (gameRooms s1)\<rparr>))
            in socket_to_emit sid roomId (StateUpdate sid state now) (sent s2))"

text \<open>\<open>socket.on('gameEvent', ...)\<close>.\<close>

definition gameEvent ::
  "int \<Rightarrow> string \<Rightarrow> string option \<Rightarrow> jsval \<Rightarrow> jsval \<Rightarrow> server \<Rightarrow> server" where
  "gameEvent now sid roomId eventType eventData s0 =
     (let s = received s0 in
      case map_of (activePlayers s) sid of
        None \<Rightarrow> s
      | Some player \<Rightarrow>
          if \<not> truthy (ap_roomId player) then s
          else
            let s1 = s\<lparr>activePlayers := AList.update sid (player\<lparr>ap_lastActivity := now\<rparr>)
                        (activePlayers s)\<rparr>
            in io_to_emit roomId (GameEvent sid eventType eventData now) (sent s1))"

text \<open>
  \<open>socket.on('disconnect', ...)\<close>. When it runs the socket has already left its rooms
  (see \<open>socket_close\<close>).
\<close>

definition disconnect :: "int \<Rightarrow> string \<Rightarrow> server \<Rightarrow> server" where
  "disconnect now sid s0 =
     (let s = received s0;
          s1 = (case map_of (activePlayers s) sid of
                  None \<Rightarrow> s
                | Some player \<Rightarrow>
                    if truthy (ap_roomId player) \<and> truthy (ap_gameId player) then
                      (let roomId = the (ap_roomId player); gameId = the (ap_gameId player) in
                       case map_of (gameRooms s) gameId of
                         None \<Rightarrow> s
                       | Some cat \<Rightarrow>
                           (case map_of cat roomId of
                              None \<Rightarrow> s
                            | Some room0 \<Rightarrow>
                                let room1 = room0\<lparr>players := AList.delete sid (players room0)\<rparr>;
                                    cat1 = AList.update roomId room1 cat;
                                    s2 = socket_to_emit sid (Some roomId) (PlayerLeft sid now)
                                           (sent (s\<lparr>gameRooms := AList.update gameId cat1 (gameRooms s)\<rparr>))
                                in if length (players room1) = 0 then
                                     (let cat2 = AList.delete roomId cat1 in
                                      if length cat2 = 0
                                      then s2\<lparr>gameRooms := AList.delete gameId (gameRooms s2)\<rparr>
                                      else s2\<lparr>gameRooms := AList.update gameId cat2 (gameRooms s2)\<rparr>)
                                   else s2))
                    else s)
      in s1\<lparr>activePlayers := AList.delete sid (activePlayers s1)\<rparr>)"

text \<open>A transport close, or \<open>socket.disconnect(true)\<close>: socket.io's part, then the handler.\<close>

definition socket_disconnect :: "int \<Rightarrow> string \<Rightarrow> server \<Rightarrow> server" where
  "socket_disconnect now sid s = disconnect now sid (socket_close sid s)"

subsection \<open>The cleanup interval\<close>

text \<open>
  The first \<open>forEach\<close>, over \<open>Object.keys(activePlayers)\<close> taken before the loop. Reading
  \<open>activePlayers[id].lastActivity\<close> throws when the record is gone.
  \<open>socket.disconnect(true)\<close> runs the socket's \<open>disconnect\<close> handler before it returns;
  the handler is given the clock value of the sweep.
\<close>

fun sweepPlayers :: "int \<Rightarrow> string list \<Rightarrow> server \<Rightarrow> error + server" where
  "sweepPlayers now [] s = Inr s"
| "sweepPlayers now (id' # ids) s =
     (case map_of (activePlayers s) id' of
        None \<Rightarrow> Inl TypeError
      | Some p \<Rightarrow>
          if now - ap_lastActivity p > INACTIVITY_TIMEOUT then
            (if id' \<in> set (sockets s) then sweepPlayers now ids (socket_disconnect now id' s)
             else sweepPlayers now ids (s\<lparr>activePlayers := AList.delete id' (activePlayers s)\<rparr>))
          else sweepPlayers now ids s)"

text \<open>The inner \<open>forEach\<close> of the second pass, over the room ids of one game.\<close>

fun sweepRooms :: "int \<Rightarrow> string \<Rightarrow> string list \<Rightarrow> server \<Rightarrow> error + server" where
  "sweepRooms now gameId [] s = Inr s"
| "sweepRooms now gameId (roomId # rs) s =
     (case map_of (gameRooms s) gameId of
        None \<Rightarrow> Inl TypeError
      | Some cat \<Rightarrow>
          (case map_of cat roomId of
             None \<Rightarrow> Inl TypeError
           | Some room0 \<Rightarrow>
               if now - lastActivity room0 > INACTIVITY_TIMEOUT then
                 (let s1 = io_to_emit (Some roomId) (RoomClosed ''inactivity'' roomId) (sent s)
                  in sweepRooms now gameId rs
                       (s1\<lparr>gameRooms := AList.update gameId (AList.delete roomId cat) (gameRooms s1)\<rparr>))
               else sweepRooms now gameId rs s))"

text \<open>The outer \<open>forEach\<close> of the second pass, over \<open>Object.keys(gameRooms)\<close>.\<close>

fun sweepGames :: "int \<Rightarrow> string list \<Rightarrow> server \<Rightarrow> error + server" where
  "sweepGames now [] s = Inr s"
| "sweepGames now (gameId # gs) s =
     (case map_of (gameRooms s) gameId of
        None \<Rightarrow> Inl TypeError
      | Some cat \<Rightarrow>
          (case sweepRooms now gameId (map fst cat) s of
             Inl e \<Rightarrow> Inl e
           | Inr s1 \<Rightarrow>
               (case map_of (gameRooms s1) gameId of
                  None \<Rightarrow> Inl TypeError
                | Some cat1 \<Rightarrow>
                    sweepGames now gs
                      (if length cat1 = 0
                       then s1\<lparr>gameRooms := AList.delete gameId (gameRooms s1)\<rparr> else s1))))"

definition cleanupPlayers :: "int \<Rightarrow> server \<Rightarrow> error + server" where
  "cleanupPlayers now s = sweepPlayers now (map fst (activePlayers s)) s"

definition cleanupRooms :: "int \<Rightarrow> server \<Rightarrow> error + server" where
  "cleanupRooms now s = sweepGames now (map fst (gameRooms s)) s"

definition cleanup :: "int \<Rightarrow> server \<Rightarrow> error + server" where
  "cleanup now s =
     (case cleanupPlayers now s of Inl e \<Rightarrow> Inl e | Inr s1 \<Rightarrow> cleanupRooms now s1)"

text \<open>The server as it starts: empty dictionaries, counters at zero, nobody connected.\<close>

definition initial :: "int \<Rightarrow> server" where
  "initial t =
     \<lparr>gameRooms = [], activePlayers = [],
      serverStats = \<lparr>startTime = t, connections = 0, messagesSent = 0,
                     messagesReceived = 0, peakConcurrentPlayers = 0\<rparr>,
      sockets = [], adapter = (\<lambda>_. []), outbox = []\<rparr>"

subsection \<open>Observations on a state\<close>

text \<open>The guard of \<open>stateUpdate\<close> and \<open>gameEvent\<close>: \<open>player && player.roomId\<close>.\<close>

definition hasRecordedRoom :: "server \<Rightarrow> string \<Rightarrow> bool" where
  "hasRecordedRoom s sid =
     (case map_of (activePlayers s) sid of None \<Rightarrow> False | Some p \<Rightarrow> truthy (ap_roomId p))"

text \<open>The packets a handler emitted, when it took the server from \<open>s\<close> to \<open>s'\<close>.\<close>

definition emitted :: "server \<Rightarrow> server \<Rightarrow> (string \<times> message) list" where
  "emitted s s' = drop (length (outbox s)) (outbox s')"

text \<open>\<open>gameRooms[g][r]\<close>, if the category and the room exist.\<close>

definition lookupRoom :: "server \<Rightarrow> string \<Rightarrow> string \<Rightarrow> room option" where
  "lookupRoom s g r = (case map_of (gameRooms s) g of None \<Rightarrow> None | Some cat \<Rightarrow> map_of cat r)"

text \<open>\<open>gameRooms[g][r].players[sid]\<close>: the stored snapshot of a player.\<close>

definition snapshot :: "server \<Rightarrow> string \<Rightarrow> string \<Rightarrow> string \<Rightarrow> obj option" where
  "snapshot s g r sid =
     (case lookupRoom s g r of None \<Rightarrow> None | Some room0 \<Rightarrow> map_of (players room0) sid)"

text \<open>The room a join goes to: the one it names, or a generated one.\<close>

definition targetRoom :: "string \<Rightarrow> string option \<Rightarrow> string" where
  "targetRoom rendering roomId = (if \<not> truthy roomId then generateRoomId rendering else the roomId)"

text \<open>The players of a room before a join; none when the room does not exist yet.\<close>

definition preExisting :: "server \<Rightarrow> string \<Rightarrow> string \<Rightarrow> (string \<times> obj) list" where
  "preExisting s g r = (case lookupRoom s g r of None \<Rightarrow> [] | Some room0 \<Rightarrow> players room0)"

text \<open>The \<open>playerJoined\<close> packets handed to one socket: their \<open>id\<close> and \<open>playerData\<close>.\<close>

fun playerJoinedTo :: "string \<Rightarrow> (string \<times> message) list \<Rightarrow> (string \<times> jsval) list" where
  "playerJoinedTo sid [] = []"
| "playerJoinedTo sid ((t, PlayerJoined i d) # ms) =
     (if t = sid then (i, d) # playerJoinedTo sid ms else playerJoinedTo sid ms)"
| "playerJoinedTo sid (_ # ms) = playerJoinedTo sid ms"

text \<open>The three properties the server writes into a snapshot at a join.\<close>

definition stamps :: "string \<Rightarrow> int \<Rightarrow> obj" where
  "stamps sid now = [(''id'', Str sid), (''joinedAt'', Num now), (''lastActivity'', Num now)]"

text \<open>
  What a payload sets: the properties its spread defines. (The keys of a JavaScript
  value are distinct; were a key listed twice, its last value would count.)
\<close>

definition payload :: "jsval \<Rightarrow> string \<Rightarrow> jsval option" where
  "payload v = map_of (rev (spread v))"

text \<open>
  Last write wins, in the words of the specification: the value of a key is the one of
  the most recent payload that sets it. The payloads are listed most recent first.
\<close>

fun latest :: "jsval list \<Rightarrow> string \<Rightarrow> jsval option" where
  "latest [] k = None"
| "latest (st # earlier) k = (case payload st k of Some v \<Rightarrow> Some v | None \<Rightarrow> latest earlier k)"

text \<open>Successive \<open>stateUpdate\<close> messages of one socket: time and state of each, oldest first.\<close>

definition stateUpdates :: "string \<Rightarrow> string option \<Rightarrow> (int \<times> jsval) list \<Rightarrow> server \<Rightarrow> server" where
  "stateUpdates sid roomId ups s = fold (\<lambda>(now, st). stateUpdate now sid roomId st) ups s"


text \<open>The tests of the two sweeps: \<open>now - lastActivity > INACTIVITY_TIMEOUT\<close>.\<close>

definition idlePlayer :: "int \<Rightarrow> server \<Rightarrow> string \<Rightarrow> bool" where
  "idlePlayer now s sid =
     (case map_of (activePlayers s) sid of
        None \<Rightarrow> False
      | Some p \<Rightarrow> now - ap_lastActivity p > INACTIVITY_TIMEOUT)"

definition idleRoom :: "int \<Rightarrow> room option \<Rightarrow> bool" where
  "idleRoom now ro =
     (case ro of None \<Rightarrow> False | Some room0 \<Rightarrow> now - lastActivity room0 > INACTIVITY_TIMEOUT)"

subsection \<open>Invariants\<close>

text \<open>A room exists only with a tracked player, a category only with a room.\<close>

definition roomOK :: "string \<times> room \<Rightarrow> bool" where
  "roomOK = (\<lambda>(r, room0). players room0 \<noteq> [])"

definition catOK :: "string \<times> (string \<times> room) list \<Rightarrow> bool" where
  "catOK = (\<lambda>(g, cat). cat \<noteq> [] \<and> list_all roomOK cat)"

definition dirInv :: "server \<Rightarrow> bool" where
  "dirInv s = list_all catOK (gameRooms s)"

text \<open>
  The keys of \<open>gameRooms\<close>, of each category and of each room's players are distinct, as
  the keys of an object are.
\<close>

definition distinctPlayers :: "string \<times> room \<Rightarrow> bool" where
  "distinctPlayers = (\<lambda>(r, room0). distinct (map fst (players room0)))"

definition distinctKeys :: "string \<times> (string \<times> room) list \<Rightarrow> bool" where
  "distinctKeys = (\<lambda>(g, cat). distinct (map fst cat) \<and> list_all distinctPlayers cat)"

definition wfDir :: "server \<Rightarrow> bool" where
  "wfDir s = (distinct (map fst (gameRooms s)) \<and> list_all distinctKeys (gameRooms s))"

text \<open>Every socket is subscribed to the socket.io room its player record names.\<close>

definition joinedOwnRooms :: "server \<Rightarrow> bool" where
  "joinedOwnRooms s =
     list_all (\<lambda>(sid, p). case ap_roomId p of None \<Rightarrow> True | Some r \<Rightarrow> sid \<in> set (adapter s r))
       (activePlayers s)"

text \<open>Auxiliary forms of the invariants, one entry at a time.\<close>

definition subscribed :: "(string \<Rightarrow> string list) \<Rightarrow> string \<times> activePlayer \<Rightarrow> bool" where
  "subscribed ad = (\<lambda>(sid, p). case ap_roomId p of None \<Rightarrow> True | Some r \<Rightarrow> sid \<in> set (ad r))"

text \<open>While the rooms of game \<open>g\<close> are swept, the category of \<open>g\<close> may be empty.\<close>

definition weakOK :: "string \<Rightarrow> string \<times> (string \<times> room) list \<Rightarrow> bool" where
  "weakOK g = (\<lambda>(g', cat). (g' = g \<or> cat \<noteq> []) \<and> list_all roomOK cat)"

text \<open>
  The player records are those of the connected sockets, one each, and every socket is
  subscribed to the room its record names.
\<close>

definition connInv :: "server \<Rightarrow> bool" where
  "connInv s = (distinct (map fst (activePlayers s))
                \<and> set (map fst (activePlayers s)) = set (sockets s)
                \<and> joinedOwnRooms s)"

subsection \<open>Runs of the server\<close>

text \<open>
  What the event loop hands to the server, one at a time: a new connection, a message of
  a socket, the close of a socket, a tick of the cleanup interval. A handler that throws
  ends the run.
\<close>

datatype event =
    Connect int string
  | Join int string string string "string option" jsval
  | Update int string "string option" jsval
  | Event int string "string option" jsval jsval
  | Close int string
  | Cleanup int

fun step :: "event \<Rightarrow> server \<Rightarrow> error + server" where
  "step (Connect now sid) s = Inr (connection now sid (socket_open sid s))"
| "step (Join now rendering sid gameId roomId playerData) s =
     joinGame now rendering sid gameId roomId playerData s"
| "step (Update now sid roomId state) s = Inr (stateUpdate now sid roomId state s)"
| "step (Event now sid roomId eventType eventData) s =
     Inr (gameEvent now sid roomId eventType eventData s)"
| "step (Close now sid) s = Inr (socket_disconnect now sid s)"
| "step (Cleanup now) s = cleanup now s"

fun run :: "event list \<Rightarrow> server \<Rightarrow> error + server" where
  "run [] s = Inr s"
| "run (e # es) s = (case step e s of Inl err \<Rightarrow> Inl err | Inr s' \<Rightarrow> run es s')"

text \<open>
  What socket.io guarantees about the events: a new connection has an id that no
  connected socket has, and messages and closes come from connected sockets.
\<close>

fun enabled :: "event \<Rightarrow> server \<Rightarrow> bool" where
  "enabled (Connect now sid) s = (sid \<notin> set (sockets s))"
| "enabled (Join now rendering sid gameId roomId playerData) s = (sid \<in> set (sockets s))"
| "enabled (Update now sid roomId state) s = (sid \<in> set (sockets s))"
| "enabled (Event now sid roomId eventType eventData) s = (sid \<in> set (sockets s))"
| "enabled (Close now sid) s = (sid \<in> set (sockets s))"
| "enabled (Cleanup now) s = True"

fun enabledRun :: "event list \<Rightarrow> server \<Rightarrow> bool" where
  "enabledRun [] s = True"
| "enabledRun (e # es) s =
     (enabled e s \<and> (case step e s of Inl err \<Rightarrow> True | Inr s' \<Rightarrow> enabledRun es s'))"

text \<open>The states the server can be in: those some sequence of such events leads to.\<close>

inductive reachable :: "server \<Rightarrow> bool" where
  reachable_initial: "reachable (initial t)"
| reachable_step: "reachable s \<Longrightarrow> enabled e s \<Longrightarrow> step e s = Inr s' \<Longrightarrow> reachable s'"

text \<open>
  Example states. \<open>a\<close> connects and joins game "demo" without a room id (the random
  number renders as "0.4fzyo82mvyr", so the room is "4FZYO8"); \<open>b\<close> connects and joins
  that room; \<open>c\<close> connects and joins room "LOBBY" of the same game.
\<close>

definition exConnected :: server where
  "exConnected = connection 0 ''a'' (socket_open ''a'' (initial 0))"

definition exJoined :: server where
  "exJoined =
     (case run [Connect 0 ''a'', Join 1 ''0.4fzyo82mvyr'' ''a'' ''demo'' None (Obj [(''x'', Num 0)])]
             (initial 0)
      of Inl e \<Rightarrow> initial 0 | Inr s \<Rightarrow> s)"

definition exBefore :: server where
  "exBefore = connection 2 ''b'' (socket_open ''b'' exJoined)"

definition threeJoins :: "event list" where
  "threeJoins =
     [Connect 0 ''a'', Join 1 ''0.4fzyo82mvyr'' ''a'' ''demo'' None (Obj [(''x'', Num 0)]),
      Connect 2 ''b'', Join 3 ''0.zzzzzz'' ''b'' ''demo'' (Some ''4FZYO8'') (Obj [(''x'', Num 5)]),
      Connect 4 ''c'', Join 5 ''0.zzzzzz'' ''c'' ''demo'' (Some ''LOBBY'') Null]"

definition exRoom :: server where
  "exRoom = (case run threeJoins (initial 0) of Inl e \<Rightarrow> initial 0 | Inr s \<Rightarrow> s)"

text \<open>Later, \<open>b\<close> has sent a state update at time 1000000.\<close>

definition beforeRun :: "event list" where
  "beforeRun =
     [Connect 0 ''a'', Join 1 ''0.4fzyo82mvyr'' ''a'' ''demo'' None (Obj [(''x'', Num 0)]),
      Connect 2 ''b'']"


text \<open>
  Or else, after the three joins, each socket sends a \<open>gameEvent\<close> at time 1000000 and the
  cleanup interval fires at time 2000000: no player is idle, both rooms are.
\<close>

definition sweptRun :: "event list" where
  "sweptRun = threeJoins @
     [Event 1000000 ''a'' (Some ''4FZYO8'') (Str ''ping'') Null,
      Event 1000000 ''b'' (Some ''4FZYO8'') (Str ''ping'') Null,
      Event 1000000 ''c'' (Some ''LOBBY'') (Str ''ping'') Null,
      Cleanup 2000000]"

definition exSwept :: server where
  "exSwept = (case run sweptRun (initial 0) of Inl e \<Rightarrow> initial 0 | Inr s \<Rightarrow> s)"

definition exLater :: server where
  "exLater = stateUpdate 1000000 ''b'' (Some ''4FZYO8'') (Obj [(''x'', Num 7)]) exRoom"

section \<open>Basic facts\<close>

subsection \<open>What the helpers change\<close>

lemma members_cong: "adapter s' = adapter s \<Longrightarrow> members s' r = members s r"
  by (simp add: members_def split: option.split)

lemma received_fields [simp]:
  "gameRooms (received s) = gameRooms s"
  "activePlayers (received s) = activePlayers s"
  "sockets (received s) = sockets s"
  "adapter (received s) = adapter s"
  "outbox (received s) = outbox s"
  "members (received s) r = members s r"
  by (simp_all add: received_def members_def split: option.split)

lemma sent_fields [simp]:
  "gameRooms (sent s) = gameRooms s"
  "activePlayers (sent s) = activePlayers s"
  "sockets (sent s) = sockets s"
  "adapter (sent s) = adapter s"
  "outbox (sent s) = outbox s"
  "members (sent s) r = members s r"
  by (simp_all add: sent_def members_def split: option.split)

lemma socket_emit_fields [simp]:
  "gameRooms (socket_emit sid m s) = gameRooms s"
  "activePlayers (socket_emit sid m s) = activePlayers s"
  "sockets (socket_emit sid m s) = sockets s"
  "adapter (socket_emit sid m s) = adapter s"
  "serverStats (socket_emit sid m s) = serverStats s"
  "outbox (socket_emit sid m s) = outbox s @ [(sid, m)]"
  by (simp_all add: socket_emit_def)

lemma socket_to_emit_fields [simp]:
  "gameRooms (socket_to_emit sid r m s) = gameRooms s"
  "activePlayers (socket_to_emit sid r m s) = activePlayers s"
  "sockets (socket_to_emit sid r m s) = sockets s"
  "adapter (socket_to_emit sid r m s) = adapter s"
  "serverStats (socket_to_emit sid r m s) = serverStats s"
  "outbox (socket_to_emit sid r m s) =
     outbox s @ map (\<lambda>t. (t, m)) (filter (\<lambda>t. t \<noteq> sid) (members s r))"
  by (simp_all add: socket_to_emit_def)

lemma io_to_emit_fields [simp]:
  "gameRooms (io_to_emit r m s) = gameRooms s"
  "activePlayers (io_to_emit r m s) = activePlayers s"
  "sockets (io_to_emit r m s) = sockets s"
  "adapter (io_to_emit r m s) = adapter s"
  "serverStats (io_to_emit r m s) = serverStats s"
  "outbox (io_to_emit r m s) = outbox s @ map (\<lambda>t. (t, m)) (members s r)"
  by (simp_all add: io_to_emit_def)

lemma members_upd [simp]:
  "members (s\<lparr>gameRooms := x\<rparr>) r = members s r"
  "members (s\<lparr>activePlayers := y\<rparr>) r = members s r"
  "members (s\<lparr>serverStats := z\<rparr>) r = members s r"
  "members (s\<lparr>outbox := w\<rparr>) r = members s r"
  by (simp_all add: members_def split: option.split)

lemma socket_join_fields [simp]:
  "gameRooms (socket_join sid r s) = gameRooms s"
  "activePlayers (socket_join sid r s) = activePlayers s"
  "sockets (socket_join sid r s) = sockets s"
  "outbox (socket_join sid r s) = outbox s"
  "serverStats (socket_join sid r s) = serverStats s"
  by (simp_all add: socket_join_def)

lemma socket_close_fields [simp]:
  "gameRooms (socket_close sid s) = gameRooms s"
  "activePlayers (socket_close sid s) = activePlayers s"
  "sockets (socket_close sid s) = removeAll sid (sockets s)"
  "adapter (socket_close sid s) r = removeAll sid (adapter s r)"
  "outbox (socket_close sid s) = outbox s"
  by (simp_all add: socket_close_def)

lemma list_all_update:
  "list_all P al \<Longrightarrow> P (k, v) \<Longrightarrow> list_all P (AList.update k v al)"
  by (induction al) auto

lemma list_all_delete:
  "list_all P al \<Longrightarrow> list_all P (AList.delete k al)"
  by (induction al) auto

lemma map_of_list_all:
  "list_all P al \<Longrightarrow> map_of al k = Some v \<Longrightarrow> P (k, v)"
  by (auto simp: list_all_iff dest: map_of_SomeD)

lemma filter_update_other:
  "filter (\<lambda>e. fst e \<noteq> k) (AList.update k v al) = filter (\<lambda>e. fst e \<noteq> k) al"
  by (induction al) auto

lemma delete_Nil_other: "AList.delete k al = [] \<Longrightarrow> k' \<noteq> k \<Longrightarrow> map_of al k' = None"
  using AList.map_of_delete [of k' k al] by simp

subsection \<open>Object literals\<close>

lemma map_of_fold_update:
  "map_of (fold (\<lambda>(k, v). AList.update k v) props acc) = map_of acc ++ map_of (rev props)"
proof (induction props arbitrary: acc)
  case Nil
  then show ?case by simp
next
  case (Cons kv props)
  obtain k v where kv: "kv = (k, v)" by (cases kv)
  have "map_of (fold (\<lambda>(k, v). AList.update k v) (kv # props) acc)
        = map_of (AList.update k v acc) ++ map_of (rev props)"
    by (simp add: kv Cons.IH)
  also have "\<dots> = map_of acc ++ map_of (rev (kv # props))"
    by (auto simp: kv AList.update_conv' fun_eq_iff map_add_def split: option.splits)
  finally show ?case .
qed

lemma map_of_objLit: "map_of (objLit props) = map_of (rev props)"
  by (simp add: objLit_def map_of_fold_update)

lemma distinct_fold_update:
  "distinct (map fst acc) \<Longrightarrow> distinct (map fst (fold (\<lambda>(k, v). AList.update k v) props acc))"
  by (induction props arbitrary: acc) (auto simp: AList.distinct_update)

lemma distinct_objLit: "distinct (map fst (objLit props))"
  by (simp add: objLit_def distinct_fold_update)

lemma map_of_rev_distinct: "distinct (map fst xs) \<Longrightarrow> map_of (rev xs) = map_of xs"
proof (induction xs)
  case Nil
  then show ?case by simp
next
  case (Cons x xs)
  then have "fst x \<notin> dom (map_of xs)" by (auto simp: dom_map_of_conv_image_fst)
  then have "map_of xs (fst x) = None" by blast
  with Cons show ?case
    by (cases x) (auto simp: fun_eq_iff map_add_def split: option.splits)
qed

lemma latest_snoc:
  "latest (xs @ [pd]) k = (case latest xs k of Some v \<Rightarrow> Some v | None \<Rightarrow> payload pd k)"
  by (induction xs) (auto split: option.splits)

subsection \<open>The example states\<close>

lemma exConnected_fields:
  "gameRooms exConnected = []"
  "activePlayers exConnected =
     [(''a'', \<lparr>ap_id = ''a'', ap_roomId = None, ap_gameId = None,
              ap_joinedAt = 0, ap_lastActivity = 0\<rparr>)]"
  "outbox exConnected = []"
  by (simp_all add: exConnected_def connection_def socket_open_def socket_join_def initial_def Let_def)

lemma exJoined_join:
  "joinGame 1 ''0.4fzyo82mvyr'' ''a'' ''demo'' None (Obj [(''x'', Num 0)]) exConnected = Inr exJoined"
  by (simp add: exJoined_def exConnected_def initial_def connection_def socket_open_def
      socket_join_def joinGame_def Let_def received_def sent_def socket_emit_def socket_to_emit_def
      members_def truthy_def generateRoomId_def toUpperCase_def toUpperCase_char_def substring_def
      objLit_def)

lemma exJoined_fields:
  "gameRooms exJoined =
     [(''demo'',
       [(''4FZYO8'',
         \<lparr>room_roomId = ''4FZYO8'', room_gameId = ''demo'',
          players =
            [(''a'', [(''id'', Str ''a''), (''joinedAt'', Num 1), (''lastActivity'', Num 1), (''x'', Num 0)])],
          createdAt = 1, lastActivity = 1\<rparr>)])]"
  "activePlayers exJoined =
     [(''a'', \<lparr>ap_id = ''a'', ap_roomId = Some ''4FZYO8'', ap_gameId = Some ''demo'',
              ap_joinedAt = 0, ap_lastActivity = 0\<rparr>)]"
  "sockets exJoined = [''a'']"
  "adapter exJoined ''4FZYO8'' = [''a'']"
  "outbox exJoined = [(''a'', RoomJoined ''4FZYO8'' ''demo'' ''a'' 1)]"
  by (simp_all add: exJoined_def initial_def connection_def socket_open_def
      socket_join_def joinGame_def Let_def received_def sent_def socket_emit_def socket_to_emit_def
      members_def truthy_def generateRoomId_def toUpperCase_def toUpperCase_char_def substring_def
      objLit_def)

lemma exBefore_fields:
  "gameRooms exBefore = gameRooms exJoined"
  "activePlayers exBefore =
     [(''a'', \<lparr>ap_id = ''a'', ap_roomId = Some ''4FZYO8'', ap_gameId = Some ''demo'',
              ap_joinedAt = 0, ap_lastActivity = 0\<rparr>),
      (''b'', \<lparr>ap_id = ''b'', ap_roomId = None, ap_gameId = None,
              ap_joinedAt = 2, ap_lastActivity = 2\<rparr>)]"
  "outbox exBefore = outbox exJoined"
  "sockets exBefore = [''a'', ''b'']"
  by (simp_all add: exBefore_def connection_def socket_open_def socket_join_def Let_def
      exJoined_fields)

lemma beforeRun_run:
  "enabledRun beforeRun (initial 0)" "run beforeRun (initial 0) = Inr exBefore"
  by (simp_all add: beforeRun_def exBefore_def exJoined_def initial_def connection_def
      socket_open_def socket_join_def joinGame_def Let_def received_def sent_def socket_emit_def
      socket_to_emit_def members_def truthy_def generateRoomId_def toUpperCase_def
      toUpperCase_char_def substring_def objLit_def)

lemma exRoom_run: "run threeJoins (initial 0) = Inr exRoom"
  by (simp add: exRoom_def threeJoins_def initial_def connection_def socket_open_def socket_join_def
      joinGame_def Let_def received_def sent_def socket_emit_def socket_to_emit_def members_def
      truthy_def generateRoomId_def toUpperCase_def toUpperCase_char_def substring_def objLit_def)

lemma exRoom_fields:
  "gameRooms exRoom =
     [(''demo'',
       [(''4FZYO8'',
         \<lparr>room_roomId = ''4FZYO8'', room_gameId = ''demo'',
          players =
            [(''a'', [(''id'', Str ''a''), (''joinedAt'', Num 1), (''lastActivity'', Num 1), (''x'', Num 0)]),
             (''b'', [(''id'', Str ''b''), (''joinedAt'', Num 3), (''lastActivity'', Num 3), (''x'', Num 5)])],
          createdAt = 1, lastActivity = 1\<rparr>),
        (''LOBBY'',
         \<lparr>room_roomId = ''LOBBY'', room_gameId = ''demo'',
          players = [(''c'', [(''id'', Str ''c''), (''joinedAt'', Num 5), (''lastActivity'', Num 5)])],
          createdAt = 5, lastActivity = 5\<rparr>)])]"
  "activePlayers exRoom =
     [(''a'', \<lparr>ap_id = ''a'', ap_roomId = Some ''4FZYO8'', ap_gameId = Some ''demo'',
              ap_joinedAt = 0, ap_lastActivity = 0\<rparr>),
      (''b'', \<lparr>ap_id = ''b'', ap_roomId = Some ''4FZYO8'', ap_gameId = Some ''demo'',
              ap_joinedAt = 2, ap_lastActivity = 2\<rparr>),
      (''c'', \<lparr>ap_id = ''c'', ap_roomId = Some ''LOBBY'', ap_gameId = Some ''demo'',
              ap_joinedAt = 4, ap_lastActivity = 4\<rparr>)]"
  "sockets exRoom = [''a'', ''b'', ''c'']"
  "adapter exRoom ''4FZYO8'' = [''a'', ''b'']"
  "adapter exRoom ''LOBBY'' = [''c'']"
  "outbox exRoom =
     [(''a'', RoomJoined ''4FZYO8'' ''demo'' ''a'' 1),
      (''b'', RoomJoined ''4FZYO8'' ''demo'' ''b'' 2),
      (''a'', PlayerJoined ''b'' (Obj [(''x'', Num 5)])),
      (''b'', PlayerJoined ''a'' (Obj [(''id'', Str ''a''), (''joinedAt'', Num 1),
                                      (''lastActivity'', Num 1), (''x'', Num 0)])),
      (''c'', RoomJoined ''LOBBY'' ''demo'' ''c'' 1)]"
  by (simp_all add: exRoom_def threeJoins_def initial_def connection_def socket_open_def socket_join_def
      joinGame_def Let_def received_def sent_def socket_emit_def socket_to_emit_def members_def
      truthy_def generateRoomId_def toUpperCase_def toUpperCase_char_def substring_def objLit_def)


section \<open>Generated room ids\<close>

lemma generateRoomId_length_le: "length (generateRoomId r) \<le> 6"
  by (simp add: generateRoomId_def toUpperCase_def substring_def)

lemma generateRoomId_length: "8 \<le> length r \<Longrightarrow> length (generateRoomId r) = 6"
  by (simp add: generateRoomId_def toUpperCase_def substring_def)

lemma toUpperCase_char_base36: "c \<in> base36_lower \<Longrightarrow> toUpperCase_char c \<in> base36_upper"
  by (auto simp: base36_lower_def base36_upper_def toUpperCase_char_def)

lemma generateRoomId_alphabet:
  "set (drop 2 r) \<subseteq> base36_lower \<Longrightarrow> set (generateRoomId r) \<subseteq> base36_upper"
  using toUpperCase_char_base36
  by (auto simp: generateRoomId_def toUpperCase_def substring_def dest!: in_set_takeD)

text \<open>
  Claim C5: a join that supplies no roomId gets a generated roomId of exactly 6
  characters from the digits and the uppercase letters.

  The characters are right (\<open>generateRoomId_alphabet\<close>) and there are at most 6 of them
  (\<open>generateRoomId_length_le\<close>), but 6 only when the random number renders with 6 or more
  digits after "0." (\<open>generateRoomId_length\<close>). The number 0.5 renders as "0.i": the
  room id is then the single character "I".
\<close>

theorem generateRoomId_short:
  "generateRoomId ''0.i'' = ''I'' \<and> length (generateRoomId ''0.i'') \<noteq> 6"
  by (simp add: generateRoomId_def toUpperCase_def substring_def toUpperCase_char_def)

section \<open>The relay: stateUpdate and gameEvent\<close>

lemma stateUpdate_outbox:
  assumes "hasRecordedRoom s sid"
  shows "outbox (stateUpdate now sid roomId state s) =
         outbox s @ map (\<lambda>t. (t, StateUpdate sid state now)) (filter (\<lambda>t. t \<noteq> sid) (members s roomId))"
proof -
  from assms obtain p where p: "map_of (activePlayers s) sid = Some p" "truthy (ap_roomId p)"
    by (auto simp: hasRecordedRoom_def split: option.splits)
  show ?thesis
    by (simp add: stateUpdate_def Let_def p split: option.split)
qed

lemma gameEvent_outbox:
  assumes "hasRecordedRoom s sid"
  shows "outbox (gameEvent now sid roomId ty d s) =
         outbox s @ map (\<lambda>t. (t, GameEvent sid ty d now)) (members s roomId)"
proof -
  from assms obtain p where p: "map_of (activePlayers s) sid = Some p" "truthy (ap_roomId p)"
    by (auto simp: hasRecordedRoom_def split: option.splits)
  show ?thesis
    by (simp add: gameEvent_def Let_def p)
qed

lemma joinedOwnRooms_member:
  assumes "joinedOwnRooms s" "map_of (activePlayers s) sid = Some p" "ap_roomId p = Some r"
  shows "sid \<in> set (adapter s r)"
proof -
  from assms(2) have "(sid, p) \<in> set (activePlayers s)" by (rule map_of_SomeD)
  with assms(1) have "case ap_roomId p of None \<Rightarrow> True | Some r \<Rightarrow> sid \<in> set (adapter s r)"
    unfolding joinedOwnRooms_def list_all_iff by fastforce
  with assms(3) show ?thesis by simp
qed

text \<open>
  Claim C1: when the sender has a recorded room, a \<open>stateUpdate\<close> broadcast goes to every
  member of the broadcast group of the room the message names except the sender, and
  never to the sender; a \<open>gameEvent\<close> broadcast goes to every member of that group, the
  sender not excluded. So a sender that is in the group gets its own event back, which
  is the case whenever it names the room of its own record and every socket is
  subscribed to the room its record names (\<open>joinedOwnRooms\<close>).
\<close>

theorem broadcast_recipients:
  assumes "hasRecordedRoom s sid"
  shows "fst ` set (emitted s (stateUpdate now sid roomId state s)) = set (members s roomId) - {sid}
     \<and> snd ` set (emitted s (stateUpdate now sid roomId state s)) \<subseteq> {StateUpdate sid state now}
     \<and> fst ` set (emitted s (gameEvent now sid roomId ty d s)) = set (members s roomId)
     \<and> snd ` set (emitted s (gameEvent now sid roomId ty d s)) \<subseteq> {GameEvent sid ty d now}
     \<and> (sid \<in> set (members s roomId) \<longrightarrow>
           (sid, GameEvent sid ty d now) \<in> set (emitted s (gameEvent now sid roomId ty d s)))
     \<and> (joinedOwnRooms s \<and> roomId \<noteq> None
          \<and> (\<exists>p. map_of (activePlayers s) sid = Some p \<and> ap_roomId p = roomId) \<longrightarrow>
           (sid, GameEvent sid ty d now) \<in> set (emitted s (gameEvent now sid roomId ty d s)))"
proof -
  have 1: "fst ` set (emitted s (stateUpdate now sid roomId state s)) = set (members s roomId) - {sid}"
    by (auto simp: emitted_def stateUpdate_outbox [OF assms] image_iff)
  have 2: "snd ` set (emitted s (stateUpdate now sid roomId state s)) \<subseteq> {StateUpdate sid state now}"
    by (auto simp: emitted_def stateUpdate_outbox [OF assms])
  have 3: "fst ` set (emitted s (gameEvent now sid roomId ty d s)) = set (members s roomId)"
    by (auto simp: emitted_def gameEvent_outbox [OF assms] image_iff)
  have 4: "snd ` set (emitted s (gameEvent now sid roomId ty d s)) \<subseteq> {GameEvent sid ty d now}"
    by (auto simp: emitted_def gameEvent_outbox [OF assms])
  have 5: "sid \<in> set (members s roomId) \<longrightarrow>
           (sid, GameEvent sid ty d now) \<in> set (emitted s (gameEvent now sid roomId ty d s))"
    by (auto simp: emitted_def gameEvent_outbox [OF assms])
  have 6: "joinedOwnRooms s \<and> roomId \<noteq> None
          \<and> (\<exists>p. map_of (activePlayers s) sid = Some p \<and> ap_roomId p = roomId) \<longrightarrow>
           (sid, GameEvent sid ty d now) \<in> set (emitted s (gameEvent now sid roomId ty d s))"
  proof (intro impI, elim conjE exE)
    fix p
    assume a: "joinedOwnRooms s" "roomId \<noteq> None" "map_of (activePlayers s) sid = Some p"
      "ap_roomId p = roomId"
    then obtain r where r: "roomId = Some r" by auto
    with a have "sid \<in> set (adapter s r)" using joinedOwnRooms_member by simp
    then have "sid \<in> set (members s roomId)" by (simp add: members_def r)
    with 5 show "(sid, GameEvent sid ty d now) \<in> set (emitted s (gameEvent now sid roomId ty d s))"
      by simp
  qed
  show ?thesis by (intro conjI) (rule 1, rule 2, rule 3, rule 4, rule 5, rule 6)
qed

theorem broadcast_recipients_witness:
  "hasRecordedRoom exRoom ''a'' \<and> joinedOwnRooms exRoom
   \<and> fst ` set (emitted exRoom (stateUpdate 9 ''a'' (Some ''4FZYO8'') (Obj [(''x'', Num 1)]) exRoom))
       = {''b''}
   \<and> fst ` set (emitted exRoom (gameEvent 9 ''a'' (Some ''4FZYO8'') (Str ''jump'') Null exRoom))
       = {''a'', ''b''}
   \<and> (''a'', GameEvent ''a'' (Str ''jump'') Null 9)
       \<in> set (emitted exRoom (gameEvent 9 ''a'' (Some ''4FZYO8'') (Str ''jump'') Null exRoom))"
proof -
  have h: "hasRecordedRoom exRoom ''a''"
    by (simp add: hasRecordedRoom_def exRoom_fields truthy_def)
  have j: "joinedOwnRooms exRoom"
    by (simp add: joinedOwnRooms_def exRoom_fields)
  have m: "members exRoom (Some ''4FZYO8'') = [''a'', ''b'']"
    by (simp add: members_def exRoom_fields)
  have p: "\<exists>p. map_of (activePlayers exRoom) ''a'' = Some p \<and> ap_roomId p = Some ''4FZYO8''"
    by (simp add: exRoom_fields)
  from broadcast_recipients [OF h, of 9 "Some ''4FZYO8''" "Obj [(''x'', Num 1)]" "Str ''jump''" Null]
    h j p
  show ?thesis by (auto simp: m)
qed

text \<open>
  Claim C9: the broadcast of a \<open>stateUpdate\<close> or a \<open>gameEvent\<close> goes to the room the
  message names; the sender's record is only tested for having some room. A socket
  whose record names another room, and which is not in the group of room \<open>r\<close>, reaches
  every member of \<open>r\<close>.
\<close>

theorem broadcast_into_unjoined_room:
  assumes "map_of (activePlayers s) sid = Some p" and "truthy (ap_roomId p)"
      and "ap_roomId p \<noteq> Some r" and "sid \<notin> set (adapter s r)"
  shows "emitted s (stateUpdate now sid (Some r) st s)
           = map (\<lambda>t. (t, StateUpdate sid st now)) (adapter s r)
       \<and> emitted s (gameEvent now sid (Some r) ty d s)
           = map (\<lambda>t. (t, GameEvent sid ty d now)) (adapter s r)"
proof -
  from assms(1,2) have h: "hasRecordedRoom s sid" by (simp add: hasRecordedRoom_def)
  from assms(4) have f: "filter (\<lambda>t. t \<noteq> sid) (adapter s r) = adapter s r"
    by (auto simp: filter_id_conv)
  show ?thesis
    by (simp add: emitted_def stateUpdate_outbox [OF h] gameEvent_outbox [OF h] members_def f)
qed

theorem broadcast_into_unjoined_room_witness:
  "map_of (activePlayers exRoom) ''c''
     = Some \<lparr>ap_id = ''c'', ap_roomId = Some ''LOBBY'', ap_gameId = Some ''demo'',
              ap_joinedAt = 4, ap_lastActivity = 4\<rparr>
   \<and> ''c'' \<notin> set (adapter exRoom ''4FZYO8'')
   \<and> emitted exRoom (stateUpdate 9 ''c'' (Some ''4FZYO8'') (Obj [(''x'', Num 1)]) exRoom)
       = [(''a'', StateUpdate ''c'' (Obj [(''x'', Num 1)]) 9),
          (''b'', StateUpdate ''c'' (Obj [(''x'', Num 1)]) 9)]
   \<and> emitted exRoom (gameEvent 9 ''c'' (Some ''4FZYO8'') (Str ''jump'') Null exRoom)
       = [(''a'', GameEvent ''c'' (Str ''jump'') Null 9),
          (''b'', GameEvent ''c'' (Str ''jump'') Null 9)]"
proof -
  let ?p = "\<lparr>ap_id = ''c'', ap_roomId = Some ''LOBBY'', ap_gameId = Some ''demo'',
              ap_joinedAt = 4, ap_lastActivity = 4\<rparr>"
  have 1: "map_of (activePlayers exRoom) ''c'' = Some ?p" by (simp add: exRoom_fields)
  have 2: "truthy (ap_roomId ?p)" by (simp add: truthy_def)
  have 3: "ap_roomId ?p \<noteq> Some ''4FZYO8''" by simp
  have 4: "''c'' \<notin> set (adapter exRoom ''4FZYO8'')" by (simp add: exRoom_fields)
  from broadcast_into_unjoined_room [OF 1 2 3 4, of 9 "Obj [(''x'', Num 1)]" "Str ''jump''" Null] 1 4
  show ?thesis by (simp add: exRoom_fields)
qed

text \<open>
  Claim C7: a \<open>stateUpdate\<close> or \<open>gameEvent\<close> of a socket without a recorded room is dropped:
  the handler only counts the message as received. The dictionaries are as before and
  no packet is emitted, to the sender or to anyone.
\<close>

theorem drop_silently:
  assumes "\<not> hasRecordedRoom s sid"
  shows "stateUpdate now sid roomId state s = received s
       \<and> gameEvent now sid roomId eventType eventData s = received s
       \<and> gameRooms (received s) = gameRooms s
       \<and> activePlayers (received s) = activePlayers s
       \<and> emitted s (received s) = []"
proof (cases "map_of (activePlayers s) sid")
  case None
  then show ?thesis by (simp add: stateUpdate_def gameEvent_def Let_def emitted_def)
next
  case (Some p)
  with assms have "\<not> truthy (ap_roomId p)" by (simp add: hasRecordedRoom_def)
  with Some show ?thesis by (simp add: stateUpdate_def gameEvent_def Let_def emitted_def)
qed

theorem drop_silently_witness:
  "\<not> hasRecordedRoom exConnected ''a''
   \<and> stateUpdate 5 ''a'' (Some ''R'') (Obj [(''x'', Num 1)]) exConnected = received exConnected
   \<and> gameEvent 5 ''a'' (Some ''R'') (Str ''jump'') Null exConnected = received exConnected
   \<and> gameRooms (received exConnected) = []
   \<and> emitted exConnected (received exConnected) = []"
proof -
  have h: "\<not> hasRecordedRoom exConnected ''a''"
    by (simp add: hasRecordedRoom_def exConnected_fields truthy_def)
  from drop_silently [OF h, of 5 "Some ''R''" "Obj [(''x'', Num 1)]" "Str ''jump''" Null] h
  show ?thesis by (simp add: exConnected_fields)
qed

section \<open>joinGame\<close>

lemma playerJoinedTo_append:
  "playerJoinedTo sid (xs @ ys) = playerJoinedTo sid xs @ playerJoinedTo sid ys"
  by (induction sid xs rule: playerJoinedTo.induct) simp_all

lemma playerJoinedTo_others:
  "playerJoinedTo sid (map (\<lambda>t. (t, m)) (filter (\<lambda>t. t \<noteq> sid) ts)) = []"
  by (induction ts) (auto split: message.splits, (cases m; simp)+)

lemma playerJoinedTo_backfill:
  "playerJoinedTo sid (map (\<lambda>(i, pl). (sid, PlayerJoined i (Obj pl))) ps) = map (\<lambda>(i, pl). (i, Obj pl)) ps"
  by (induction ps) auto

lemma backfill_outbox:
  "outbox (fold (\<lambda>(id', player) t.
                   if id' \<noteq> sid then socket_emit sid (PlayerJoined id' (Obj player)) (sent t) else t) ps s)
   = outbox s @ map (\<lambda>(i, pl). (sid, PlayerJoined i (Obj pl))) (filter (\<lambda>e. fst e \<noteq> sid) ps)"
  by (induction ps arbitrary: s) (auto)

lemma backfill_fields:
  "gameRooms (fold (\<lambda>(id', player) t.
                   if id' \<noteq> sid then socket_emit sid (PlayerJoined id' (Obj player)) (sent t) else t) ps s)
   = gameRooms s"
  "activePlayers (fold (\<lambda>(id', player) t.
                   if id' \<noteq> sid then socket_emit sid (PlayerJoined id' (Obj player)) (sent t) else t) ps s)
   = activePlayers s"
  "adapter (fold (\<lambda>(id', player) t.
                   if id' \<noteq> sid then socket_emit sid (PlayerJoined id' (Obj player)) (sent t) else t) ps s)
   = adapter s"
  "sockets (fold (\<lambda>(id', player) t.
                   if id' \<noteq> sid then socket_emit sid (PlayerJoined id' (Obj player)) (sent t) else t) ps s)
   = sockets s"
  by (induction ps arbitrary: s) auto

lemma joinGame_outbox:
  assumes p: "map_of (activePlayers s) sid = Some p"
  shows "\<exists>s'. joinGame now rendering sid gameId roomId playerData s = Inr s' \<and>
     (\<exists>n. outbox s' = outbox s
        @ [(sid, RoomJoined (targetRoom rendering roomId) gameId sid n)]
        @ map (\<lambda>t. (t, PlayerJoined sid playerData))
              (filter (\<lambda>t. t \<noteq> sid) (adapter s (targetRoom rendering roomId)))
        @ map (\<lambda>(i, pl). (sid, PlayerJoined i (Obj pl)))
              (filter (\<lambda>e. fst e \<noteq> sid) (preExisting s gameId (targetRoom rendering roomId))))"
  by (simp add: joinGame_def Let_def p backfill_outbox filter_update_other targetRoom_def
      preExisting_def lookupRoom_def socket_join_def members_def split: option.split)

lemma joinGame_state:
  assumes "map_of (activePlayers s) sid = Some p"
  shows "\<exists>s'. joinGame now rendering sid gameId roomId playerData s = Inr s'
     \<and> gameRooms s' = AList.update gameId
          (AList.update (targetRoom rendering roomId)
             ((case lookupRoom s gameId (targetRoom rendering roomId) of
                 None \<Rightarrow> \<lparr>room_roomId = targetRoom rendering roomId, room_gameId = gameId,
                          players = [], createdAt = now, lastActivity = now\<rparr>
               | Some r \<Rightarrow> r)
              \<lparr>players := AList.update sid (objLit (stamps sid now @ spread playerData))
                            (preExisting s gameId (targetRoom rendering roomId))\<rparr>)
             (case map_of (gameRooms s) gameId of None \<Rightarrow> [] | Some c \<Rightarrow> c))
          (gameRooms s)
     \<and> activePlayers s' = AList.update sid
          (p\<lparr>ap_roomId := Some (targetRoom rendering roomId), ap_gameId := Some gameId\<rparr>)
          (activePlayers s)
     \<and> adapter s' = adapter (socket_join sid (targetRoom rendering roomId) s)
     \<and> sockets s' = sockets s"
  using assms
  by (simp add: joinGame_def Let_def backfill_fields targetRoom_def preExisting_def lookupRoom_def
      stamps_def socket_join_def split: option.split)

lemma joinGame_snapshot:
  assumes "map_of (activePlayers s) sid = Some p"
      and "joinGame now rendering sid gameId roomId playerData s = Inr s'"
  shows "snapshot s' gameId (targetRoom rendering roomId) sid
           = Some (objLit (stamps sid now @ spread playerData))"
    and "map_of (activePlayers s') sid
           = Some (p\<lparr>ap_roomId := Some (targetRoom rendering roomId), ap_gameId := Some gameId\<rparr>)"
  using joinGame_state [OF assms(1), of now rendering gameId roomId playerData] assms(2)
  by (auto simp: snapshot_def lookupRoom_def AList.update_conv')

section \<open>disconnect\<close>

lemma disconnect_activePlayers:
  "activePlayers (disconnect now sid s) = AList.delete sid (activePlayers s)"
  by (simp add: disconnect_def Let_def split: option.split)

lemma disconnect_sockets: "sockets (disconnect now sid s) = sockets s"
  by (simp add: disconnect_def Let_def split: option.split)

lemma disconnect_adapter: "adapter (disconnect now sid s) = adapter s"
  by (simp add: disconnect_def Let_def split: option.split)

lemma disconnect_member:
  assumes "map_of (activePlayers s) sid = Some p"
      and "ap_roomId p = Some r" and "ap_gameId p = Some g" and "r \<noteq> []" and "g \<noteq> []"
      and "map_of (gameRooms s) g = Some cat" and "map_of cat r = Some room0"
  shows "gameRooms (disconnect now sid s) =
           (if AList.delete sid (players room0) = []
            then (if AList.delete r cat = [] then AList.delete g (gameRooms s)
                  else AList.update g (AList.delete r cat) (gameRooms s))
            else AList.update g
                   (AList.update r (room0\<lparr>players := AList.delete sid (players room0)\<rparr>) cat)
                   (gameRooms s))"
    and "outbox (disconnect now sid s) =
           outbox s @ map (\<lambda>t. (t, PlayerLeft sid now)) (filter (\<lambda>t. t \<noteq> sid) (adapter s r))"
  using assms
  by (simp_all add: disconnect_def Let_def truthy_def AList.delete_update_same members_def)

lemma disconnect_cases:
  "gameRooms (disconnect now sid s) = gameRooms s
   \<or> (\<exists>p r g cat room0. map_of (activePlayers s) sid = Some p
        \<and> ap_roomId p = Some r \<and> ap_gameId p = Some g \<and> r \<noteq> [] \<and> g \<noteq> []
        \<and> map_of (gameRooms s) g = Some cat \<and> map_of cat r = Some room0)"
proof (cases "map_of (activePlayers s) sid")
  case None
  then show ?thesis by (simp add: disconnect_def Let_def)
next
  case (Some p)
  show ?thesis
  proof (cases "truthy (ap_roomId p) \<and> truthy (ap_gameId p)")
    case False
    with Some show ?thesis
      by (cases "truthy (ap_roomId p)"; simp add: disconnect_def Let_def)
  next
    case True
    then obtain r g where rg: "ap_roomId p = Some r" "ap_gameId p = Some g" "r \<noteq> []" "g \<noteq> []"
      by (auto simp: truthy_def split: option.splits)
    show ?thesis
    proof (cases "map_of (gameRooms s) g")
      case None
      with Some rg show ?thesis by (simp add: disconnect_def Let_def truthy_def)
    next
      case cat: (Some cat)
      show ?thesis
      proof (cases "map_of cat r")
        case None
        with Some rg cat show ?thesis by (simp add: disconnect_def Let_def truthy_def)
      next
        case (Some room0)
        with \<open>map_of (activePlayers s) sid = Some p\<close> rg cat show ?thesis by blast
      qed
    qed
  qed
qed

lemma disconnect_dirInv:
  assumes "dirInv s"
  shows "dirInv (disconnect now sid s)"
proof -
  from disconnect_cases [of now sid s] show ?thesis
  proof
    assume "gameRooms (disconnect now sid s) = gameRooms s"
    with assms show ?thesis by (simp add: dirInv_def)
  next
    assume "\<exists>p r g cat room0. map_of (activePlayers s) sid = Some p
        \<and> ap_roomId p = Some r \<and> ap_gameId p = Some g \<and> r \<noteq> [] \<and> g \<noteq> []
        \<and> map_of (gameRooms s) g = Some cat \<and> map_of cat r = Some room0"
    then obtain p r g cat room0 where h: "map_of (activePlayers s) sid = Some p"
        "ap_roomId p = Some r" "ap_gameId p = Some g" "r \<noteq> []" "g \<noteq> []"
        "map_of (gameRooms s) g = Some cat" "map_of cat r = Some room0" by blast
    from assms h(6) have "catOK (g, cat)" unfolding dirInv_def by (rule map_of_list_all)
    then have cat: "list_all roomOK cat" by (simp add: catOK_def)
    let ?room1 = "room0\<lparr>players := AList.delete sid (players room0)\<rparr>"
    have g: "gameRooms (disconnect now sid s) =
           (if AList.delete sid (players room0) = []
            then (if AList.delete r cat = [] then AList.delete g (gameRooms s)
                  else AList.update g (AList.delete r cat) (gameRooms s))
            else AList.update g (AList.update r ?room1 cat) (gameRooms s))"
      by (rule disconnect_member(1) [OF h])
    have a: "list_all catOK (AList.delete g (gameRooms s))"
      using assms by (simp add: dirInv_def list_all_delete)
    have b: "AList.delete r cat \<noteq> [] \<Longrightarrow> list_all catOK (AList.update g (AList.delete r cat) (gameRooms s))"
      using assms cat by (simp add: dirInv_def list_all_update list_all_delete catOK_def)
    have c: "AList.delete sid (players room0) \<noteq> [] \<Longrightarrow>
             list_all catOK (AList.update g (AList.update r ?room1 cat) (gameRooms s))"
      using assms cat by (simp add: dirInv_def list_all_update catOK_def roomOK_def)
    from a b c show ?thesis by (simp add: dirInv_def g)
  qed
qed

lemma socket_disconnect_fields:
  "activePlayers (socket_disconnect now sid s) = AList.delete sid (activePlayers s)"
  "sockets (socket_disconnect now sid s) = removeAll sid (sockets s)"
  by (simp_all add: socket_disconnect_def disconnect_activePlayers disconnect_sockets)

lemma disconnect_no_room:
  assumes "map_of (activePlayers s) sid = Some p"
      and "ap_roomId p = Some r" and "ap_gameId p = Some g" and "lookupRoom s g r = None"
  shows "gameRooms (disconnect now sid s) = gameRooms s"
    and "outbox (disconnect now sid s) = outbox s"
proof -
  show "gameRooms (disconnect now sid s) = gameRooms s"
    using assms
    by (cases "truthy (ap_roomId p) \<and> truthy (ap_gameId p)")
       (auto simp: disconnect_def Let_def lookupRoom_def split: option.splits)
  show "outbox (disconnect now sid s) = outbox s"
    using assms
    by (cases "truthy (ap_roomId p) \<and> truthy (ap_gameId p)")
       (auto simp: disconnect_def Let_def lookupRoom_def split: option.splits)
qed

section \<open>lastActivity\<close>

lemma gameEvent_gameRooms: "gameRooms (gameEvent now sid roomId ty d s) = gameRooms s"
  by (simp add: gameEvent_def Let_def split: option.split)

lemma joinGame_lastActivity:
  assumes "map_of (activePlayers s) sid = Some p"
      and "joinGame now rendering sid gameId roomId playerData s = Inr s'"
  shows "map_option ap_lastActivity (map_of (activePlayers s') sid) = Some (ap_lastActivity p)"
    and "lookupRoom s gameId (targetRoom rendering roomId) = Some room0 \<Longrightarrow>
         map_option lastActivity (lookupRoom s' gameId (targetRoom rendering roomId))
           = Some (lastActivity room0)"
  using joinGame_state [OF assms(1), of now rendering gameId roomId playerData] assms(2)
  by (auto simp: lookupRoom_def AList.update_conv')

lemma stateUpdate_refreshes:
  assumes "map_of (activePlayers s) sid = Some p" and "truthy (ap_roomId p)"
  shows "map_option ap_lastActivity (map_of (activePlayers (stateUpdate now sid roomId st s)) sid)
           = Some now"
    and "lookupRoom s (keyOf (ap_gameId p)) (keyOf roomId) = Some room0 \<Longrightarrow>
         map_option lastActivity
           (lookupRoom (stateUpdate now sid roomId st s) (keyOf (ap_gameId p)) (keyOf roomId))
           = Some now"
  using assms
  by (auto simp: stateUpdate_def Let_def lookupRoom_def AList.update_conv' split: option.splits)

text \<open>
  Claim C4: every join, \<open>stateUpdate\<close> and \<open>gameEvent\<close> of a member refreshes the
  \<open>lastActivity\<close> of its player record and of its room.

  \<open>stateUpdate\<close> does both (\<open>stateUpdate_refreshes\<close>). \<open>gameEvent\<close> refreshes the player
  record only and never writes a room (\<open>gameEvent_gameRooms\<close>); \<open>joinGame\<close> leaves the
  player record's \<open>lastActivity\<close> and that of an existing room as they were
  (\<open>joinGame_lastActivity\<close>). In the example, \<open>b\<close> connected at time 2 and joined at time 3
  the room created at time 1; then \<open>a\<close> sends a \<open>gameEvent\<close> at time 100.
\<close>

theorem lastActivity_not_refreshed:
  "map_option lastActivity (lookupRoom exRoom ''demo'' ''4FZYO8'') = Some 1
   \<and> map_option ap_lastActivity (map_of (activePlayers exRoom) ''b'') = Some 2
   \<and> map_option lastActivity
        (lookupRoom (gameEvent 100 ''a'' (Some ''4FZYO8'') (Str ''jump'') Null exRoom) ''demo'' ''4FZYO8'')
      = Some 1
   \<and> map_option ap_lastActivity
        (map_of (activePlayers (gameEvent 100 ''a'' (Some ''4FZYO8'') (Str ''jump'') Null exRoom)) ''a'')
      = Some 100"
  by (simp add: lookupRoom_def gameEvent_def Let_def exRoom_fields truthy_def)

section \<open>Snapshots\<close>

lemma stateUpdate_snapshot:
  assumes "map_of (activePlayers s) sid = Some p" and "truthy (ap_roomId p)"
      and "snapshot s (keyOf (ap_gameId p)) (keyOf roomId) sid = Some old"
  shows "snapshot (stateUpdate now sid roomId st s) (keyOf (ap_gameId p)) (keyOf roomId) sid
           = Some (objLit (old @ spread st @ [(''lastActivity'', Num now)]))"
    and "map_of (activePlayers (stateUpdate now sid roomId st s)) sid = Some (p\<lparr>ap_lastActivity := now\<rparr>)"
  using assms
  by (auto simp: stateUpdate_def Let_def snapshot_def lookupRoom_def AList.update_conv'
      split: option.splits)

lemma merged_key:
  assumes "distinct (map fst old)"
  shows "map_of (objLit (old @ spread st @ [(''lastActivity'', Num now)])) k =
           (if k = ''lastActivity'' then Some (Num now)
            else case payload st k of Some v \<Rightarrow> Some v | None \<Rightarrow> map_of old k)"
  using map_of_rev_distinct [OF assms]
  by (simp add: map_of_objLit payload_def map_add_def split: option.split)

lemma stateUpdates_snoc:
  "stateUpdates sid roomId (ups @ [(now, st)]) s = stateUpdate now sid roomId st (stateUpdates sid roomId ups s)"
  by (simp add: stateUpdates_def)

lemma stateUpdates_snapshot:
  assumes "map_of (activePlayers s) sid = Some p" and "truthy (ap_roomId p)"
      and "snapshot s (keyOf (ap_gameId p)) (keyOf roomId) sid = Some old"
      and "distinct (map fst old)"
  shows "\<exists>snap p'. snapshot (stateUpdates sid roomId ups s) (keyOf (ap_gameId p)) (keyOf roomId) sid = Some snap
          \<and> distinct (map fst snap)
          \<and> map_of (activePlayers (stateUpdates sid roomId ups s)) sid = Some p'
          \<and> ap_roomId p' = ap_roomId p \<and> ap_gameId p' = ap_gameId p
          \<and> (\<forall>k. map_of snap k =
                (if ups \<noteq> [] \<and> k = ''lastActivity'' then Some (Num (fst (last ups)))
                 else case latest (rev (map snd ups)) k of Some v \<Rightarrow> Some v | None \<Rightarrow> map_of old k))"
proof (induction ups rule: rev_induct)
  case Nil
  with assms show ?case by (simp add: stateUpdates_def)
next
  case (snoc u ups)
  obtain now st where u: "u = (now, st)" by (cases u)
  let ?s = "stateUpdates sid roomId ups s"
  from snoc obtain snap p' where
    sn: "snapshot ?s (keyOf (ap_gameId p)) (keyOf roomId) sid = Some snap"
    and d: "distinct (map fst snap)"
    and p': "map_of (activePlayers ?s) sid = Some p'" "ap_roomId p' = ap_roomId p" "ap_gameId p' = ap_gameId p"
    and ks: "\<And>k. map_of snap k =
                (if ups \<noteq> [] \<and> k = ''lastActivity'' then Some (Num (fst (last ups)))
                 else case latest (rev (map snd ups)) k of Some v \<Rightarrow> Some v | None \<Rightarrow> map_of old k)"
    by blast
  from assms(2) p' have t: "truthy (ap_roomId p')" by simp
  from sn p' have sn': "snapshot ?s (keyOf (ap_gameId p')) (keyOf roomId) sid = Some snap" by simp
  let ?new = "objLit (snap @ spread st @ [(''lastActivity'', Num now)])"
  have a: "snapshot (stateUpdates sid roomId (ups @ [u]) s) (keyOf (ap_gameId p)) (keyOf roomId) sid = Some ?new"
    using stateUpdate_snapshot(1) [OF p'(1) t sn', of now st] p' by (simp add: u stateUpdates_snoc)
  have b: "map_of (activePlayers (stateUpdates sid roomId (ups @ [u]) s)) sid = Some (p'\<lparr>ap_lastActivity := now\<rparr>)"
    using stateUpdate_snapshot(2) [OF p'(1) t sn', of now st] by (simp add: u stateUpdates_snoc)
  have c: "map_of ?new k =
                (if ups @ [u] \<noteq> [] \<and> k = ''lastActivity'' then Some (Num (fst (last (ups @ [u]))))
                 else case latest (rev (map snd (ups @ [u]))) k of Some v \<Rightarrow> Some v | None \<Rightarrow> map_of old k)" for k
    by (simp add: merged_key [OF d] u ks split: option.split)
  from a b c p' distinct_objLit [of "snap @ spread st @ [(''lastActivity'', Num now)]"]
  show ?case by auto
qed

text \<open>
  Claim C6, amended: after a join and any sequence of \<open>stateUpdate\<close> messages of the same
  socket into the room it joined, every key of the stored snapshot other than
  \<open>lastActivity\<close> has the value of the most recent payload (of an update, or else of the
  join) that sets it, and otherwise the value the server wrote at the join (\<open>id\<close>,
  \<open>joinedAt\<close>). \<open>lastActivity\<close> is the time of the last update if there was one, whatever
  the payloads say.
\<close>

theorem snapshot_last_write_wins:
  assumes "map_of (activePlayers s) sid = Some p"
      and "targetRoom rendering roomId \<noteq> []"
      and "joinGame t0 rendering sid gameId roomId playerData s = Inr s1"
  shows "\<exists>snap. snapshot (stateUpdates sid (Some (targetRoom rendering roomId)) ups s1)
                   gameId (targetRoom rendering roomId) sid = Some snap
          \<and> (\<forall>k. map_of snap k =
                (if ups \<noteq> [] \<and> k = ''lastActivity'' then Some (Num (fst (last ups)))
                 else case latest (rev (playerData # map snd ups)) k of
                        Some v \<Rightarrow> Some v
                      | None \<Rightarrow> map_of (stamps sid t0) k))"
proof -
  let ?r = "targetRoom rendering roomId"
  let ?p = "p\<lparr>ap_roomId := Some ?r, ap_gameId := Some gameId\<rparr>"
  let ?old = "objLit (stamps sid t0 @ spread playerData)"
  note j = joinGame_snapshot [OF assms(1,3)]
  have p1: "map_of (activePlayers s1) sid = Some ?p" by (rule j(2))
  have t: "truthy (ap_roomId ?p)" using assms(2) by (simp add: truthy_def)
  have sn: "snapshot s1 (keyOf (ap_gameId ?p)) (keyOf (Some ?r)) sid = Some ?old"
    using j(1) by (simp add: keyOf_def)
  from stateUpdates_snapshot [OF p1 t sn distinct_objLit, of ups]
  obtain snap where
    a: "snapshot (stateUpdates sid (Some ?r) ups s1) gameId ?r sid = Some snap"
    and b: "\<And>k. map_of snap k =
                (if ups \<noteq> [] \<and> k = ''lastActivity'' then Some (Num (fst (last ups)))
                 else case latest (rev (map snd ups)) k of Some v \<Rightarrow> Some v | None \<Rightarrow> map_of ?old k)"
    by (auto simp: keyOf_def)
  have d: "distinct (map fst (stamps sid t0))" by (simp add: stamps_def)
  have o: "map_of ?old k = (case payload playerData k of Some v \<Rightarrow> Some v | None \<Rightarrow> map_of (stamps sid t0) k)" for k
    using map_of_rev_distinct [OF d]
    by (simp add: map_of_objLit payload_def map_add_def split: option.split)
  have "map_of snap k =
                (if ups \<noteq> [] \<and> k = ''lastActivity'' then Some (Num (fst (last ups)))
                 else case latest (rev (playerData # map snd ups)) k of
                        Some v \<Rightarrow> Some v
                      | None \<Rightarrow> map_of (stamps sid t0) k)" for k
    by (simp add: b o latest_snoc split: option.split)
  with a show ?thesis by blast
qed

theorem snapshot_last_write_wins_witness:
  "map_of (activePlayers exConnected) ''a''
     = Some \<lparr>ap_id = ''a'', ap_roomId = None, ap_gameId = None, ap_joinedAt = 0, ap_lastActivity = 0\<rparr>
   \<and> targetRoom ''0.4fzyo82mvyr'' None = ''4FZYO8''
   \<and> joinGame 1 ''0.4fzyo82mvyr'' ''a'' ''demo'' None (Obj [(''x'', Num 0)]) exConnected = Inr exJoined
   \<and> (\<exists>snap. snapshot
          (stateUpdates ''a'' (Some ''4FZYO8'')
             [(10, Obj [(''x'', Num 1)]), (20, Obj [(''y'', Num 2), (''x'', Num 3)]), (30, Obj [(''y'', Num 4)])]
             exJoined)
          ''demo'' ''4FZYO8'' ''a'' = Some snap
        \<and> map_of snap ''x'' = Some (Num 3) \<and> map_of snap ''y'' = Some (Num 4)
        \<and> map_of snap ''id'' = Some (Str ''a'') \<and> map_of snap ''joinedAt'' = Some (Num 1)
        \<and> map_of snap ''lastActivity'' = Some (Num 30))"
proof -
  let ?p = "\<lparr>ap_id = ''a'', ap_roomId = None, ap_gameId = None, ap_joinedAt = 0, ap_lastActivity = 0\<rparr>"
  let ?ups = "[(10, Obj [(''x'', Num 1)]), (20, Obj [(''y'', Num 2), (''x'', Num 3)]), (30, Obj [(''y'', Num 4)])]"
  have t: "targetRoom ''0.4fzyo82mvyr'' None = ''4FZYO8''"
    by (simp add: targetRoom_def truthy_def generateRoomId_def toUpperCase_def
        toUpperCase_char_def substring_def)
  have 1: "map_of (activePlayers exConnected) ''a'' = Some ?p" by (simp add: exConnected_fields)
  have 2: "targetRoom ''0.4fzyo82mvyr'' None \<noteq> []" by (simp add: t)
  from snapshot_last_write_wins [OF 1 2 exJoined_join, of ?ups]
  obtain snap where a: "snapshot (stateUpdates ''a'' (Some ''4FZYO8'') ?ups exJoined)
          ''demo'' ''4FZYO8'' ''a'' = Some snap"
    and b: "\<And>k. map_of snap k =
                (if k = ''lastActivity'' then Some (Num 30)
                 else case latest (rev (Obj [(''x'', Num 0)] # map snd ?ups)) k of
                        Some v \<Rightarrow> Some v
                      | None \<Rightarrow> map_of (stamps ''a'' 1) k)"
    by (auto simp: t)
  have "map_of snap ''x'' = Some (Num 3)" "map_of snap ''y'' = Some (Num 4)"
    "map_of snap ''id'' = Some (Str ''a'')" "map_of snap ''joinedAt'' = Some (Num 1)"
    "map_of snap ''lastActivity'' = Some (Num 30)"
    by (simp_all add: b payload_def stamps_def)
  with a 1 t exJoined_join show ?thesis by blast
qed

text \<open>
  Claim C6 as it stands fails for the key \<open>lastActivity\<close>: an update that sets it to "x"
  is the most recent payload to set it, and the snapshot stores the time 9 instead.
\<close>

theorem snapshot_lastActivity_counterexample:
  "latest [Obj [(''lastActivity'', Str ''x'')]] ''lastActivity'' = Some (Str ''x'')
   \<and> snapshot (stateUpdate 9 ''a'' (Some ''4FZYO8'') (Obj [(''lastActivity'', Str ''x'')]) exRoom)
         ''demo'' ''4FZYO8'' ''a''
       = Some [(''id'', Str ''a''), (''joinedAt'', Num 1), (''lastActivity'', Num 9), (''x'', Num 0)]"
  by (simp add: payload_def snapshot_def lookupRoom_def stateUpdate_def Let_def exRoom_fields
      truthy_def keyOf_def objLit_def)

section \<open>The cleanup interval\<close>

lemma sweepPlayers_cascade:
  assumes "distinct ids" and "set ids \<subseteq> dom (map_of (activePlayers s))"
      and "set ids \<subseteq> set (sockets s)"
  shows "sweepPlayers now ids s
           = Inr (fold (socket_disconnect now) (filter (idlePlayer now s) ids) s)"
  using assms
proof (induction ids arbitrary: s)
  case Nil
  then show ?case by simp
next
  case (Cons i ids)
  from Cons.prems obtain p where p: "map_of (activePlayers s) i = Some p" by auto
  show ?case
  proof (cases "now - ap_lastActivity p > INACTIVITY_TIMEOUT")
    case False
    with p have ni: "\<not> idlePlayer now s i" by (simp add: idlePlayer_def)
    from Cons.prems have "sweepPlayers now ids s
           = Inr (fold (socket_disconnect now) (filter (idlePlayer now s) ids) s)"
      by (intro Cons.IH) auto
    with p False ni show ?thesis by simp
  next
    case True
    with p have ii: "idlePlayer now s i" by (simp add: idlePlayer_def)
    let ?s1 = "socket_disconnect now i s"
    from Cons.prems have ni: "i \<notin> set ids" and isock: "i \<in> set (sockets s)" by auto
    have m: "map_of (activePlayers ?s1) j = map_of (activePlayers s) j" if "j \<in> set ids" for j
      using that ni by (auto simp: socket_disconnect_fields AList.delete_conv')
    have "set ids \<subseteq> dom (map_of (activePlayers ?s1))"
      using Cons.prems(2) m by (auto simp: dom_def)
    moreover have "set ids \<subseteq> set (sockets ?s1)"
      using Cons.prems(3) ni by (auto simp: socket_disconnect_fields)
    ultimately have "sweepPlayers now ids ?s1
           = Inr (fold (socket_disconnect now) (filter (idlePlayer now ?s1) ids) ?s1)"
      using Cons.prems(1) by (intro Cons.IH) auto
    moreover have "filter (idlePlayer now ?s1) ids = filter (idlePlayer now s) ids"
      by (rule filter_cong) (simp_all add: idlePlayer_def m)
    ultimately show ?thesis using p True ii isock by simp
  qed
qed

lemma sweepRooms_effect:
  assumes "map_of (gameRooms s) g = Some cat" and "distinct rs" and "set rs \<subseteq> dom (map_of cat)"
  shows "\<exists>s' cat' ms. sweepRooms now g rs s = Inr s'
      \<and> activePlayers s' = activePlayers s \<and> adapter s' = adapter s \<and> sockets s' = sockets s
      \<and> map_of (gameRooms s') g = Some cat'
      \<and> (\<forall>r. map_of cat' r = (if r \<in> set rs \<and> idleRoom now (map_of cat r) then None else map_of cat r))
      \<and> (\<forall>g'. g' \<noteq> g \<longrightarrow> map_of (gameRooms s') g' = map_of (gameRooms s) g')
      \<and> outbox s' = outbox s @ ms
      \<and> (\<forall>r\<in>set rs. idleRoom now (map_of cat r) \<longrightarrow>
            (\<forall>t\<in>set (adapter s r). (t, RoomClosed ''inactivity'' r) \<in> set ms))"
  using assms
proof (induction rs arbitrary: s cat)
  case Nil
  then show ?case by simp
next
  case (Cons r rs)
  from Cons.prems obtain room0 where room0: "map_of cat r = Some room0" by auto
  from Cons.prems have nr: "r \<notin> set rs" and drs: "distinct rs" by auto
  show ?case
  proof (cases "now - lastActivity room0 > INACTIVITY_TIMEOUT")
    case False
    then have ni: "\<not> idleRoom now (map_of cat r)" by (simp add: idleRoom_def room0)
    from Cons.prems have "set rs \<subseteq> dom (map_of cat)" by auto
    from Cons.IH [OF Cons.prems(1) drs this]
    obtain s' cat' ms where h: "sweepRooms now g rs s = Inr s'"
      "activePlayers s' = activePlayers s" "adapter s' = adapter s" "sockets s' = sockets s"
      "map_of (gameRooms s') g = Some cat'"
      "\<And>r. map_of cat' r = (if r \<in> set rs \<and> idleRoom now (map_of cat r) then None else map_of cat r)"
      "\<And>g'. g' \<noteq> g \<Longrightarrow> map_of (gameRooms s') g' = map_of (gameRooms s) g'"
      "outbox s' = outbox s @ ms"
      "\<And>r. r \<in> set rs \<Longrightarrow> idleRoom now (map_of cat r) \<Longrightarrow>
            (\<forall>t\<in>set (adapter s r). (t, RoomClosed ''inactivity'' r) \<in> set ms)"
      by blast
    have 1: "sweepRooms now g (r # rs) s = Inr s'"
      using Cons.prems(1) room0 False h(1) by simp
    have 2: "map_of cat' r' = (if r' \<in> set (r # rs) \<and> idleRoom now (map_of cat r') then None else map_of cat r')" for r'
      using h(6) [of r'] ni by auto
    have 3: "\<forall>r'\<in>set (r # rs). idleRoom now (map_of cat r') \<longrightarrow>
            (\<forall>t\<in>set (adapter s r'). (t, RoomClosed ''inactivity'' r') \<in> set ms)"
      using h(9) ni by auto
    from 1 2 3 h(2,3,4,5,7,8) show ?thesis by blast
  next
    case True
    then have ii: "idleRoom now (map_of cat r)" by (simp add: idleRoom_def room0)
    let ?s1 = "io_to_emit (Some r) (RoomClosed ''inactivity'' r) (sent s)"
    let ?cat2 = "AList.delete r cat"
    let ?s2 = "?s1\<lparr>gameRooms := AList.update g ?cat2 (gameRooms ?s1)\<rparr>"
    have g2: "map_of (gameRooms ?s2) g = Some ?cat2" by (simp add: AList.update_conv')
    have c2: "map_of ?cat2 r' = (if r' = r then None else map_of cat r')" for r'
      by (simp add: AList.delete_conv')
    have sub: "set rs \<subseteq> dom (map_of ?cat2)"
      using Cons.prems(3) nr by (auto simp: c2 dom_def)
    from Cons.IH [OF g2 drs sub]
    obtain s' cat' ms where h: "sweepRooms now g rs ?s2 = Inr s'"
      "activePlayers s' = activePlayers ?s2" "adapter s' = adapter ?s2" "sockets s' = sockets ?s2"
      "map_of (gameRooms s') g = Some cat'"
      "\<And>r. map_of cat' r = (if r \<in> set rs \<and> idleRoom now (map_of ?cat2 r) then None else map_of ?cat2 r)"
      "\<And>g'. g' \<noteq> g \<Longrightarrow> map_of (gameRooms s') g' = map_of (gameRooms ?s2) g'"
      "outbox s' = outbox ?s2 @ ms"
      "\<And>r. r \<in> set rs \<Longrightarrow> idleRoom now (map_of ?cat2 r) \<Longrightarrow>
            (\<forall>t\<in>set (adapter ?s2 r). (t, RoomClosed ''inactivity'' r) \<in> set ms)"
      by blast
    let ?ms = "map (\<lambda>t. (t, RoomClosed ''inactivity'' r)) (adapter s r) @ ms"
    have 1: "sweepRooms now g (r # rs) s = Inr s'"
      using Cons.prems(1) room0 True h(1) by (simp add: Let_def)
    have 2: "map_of cat' r' = (if r' \<in> set (r # rs) \<and> idleRoom now (map_of cat r') then None else map_of cat r')" for r'
      using h(6) [of r'] ii nr by (auto simp: c2)
    have 3: "\<forall>g'. g' \<noteq> g \<longrightarrow> map_of (gameRooms s') g' = map_of (gameRooms s) g'"
      using h(7) by (simp add: AList.update_conv')
    have 4: "outbox s' = outbox s @ ?ms"
      using h(8) by (simp add: members_def)
    have 5: "\<forall>r'\<in>set (r # rs). idleRoom now (map_of cat r') \<longrightarrow>
            (\<forall>t\<in>set (adapter s r'). (t, RoomClosed ''inactivity'' r') \<in> set ?ms)"
    proof (intro ballI impI)
      fix r' t assume a: "r' \<in> set (r # rs)" "idleRoom now (map_of cat r')" "t \<in> set (adapter s r')"
      show "(t, RoomClosed ''inactivity'' r') \<in> set ?ms"
      proof (cases "r' = r")
        case True
        with a show ?thesis by auto
      next
        case False
        with a have "r' \<in> set rs" "idleRoom now (map_of ?cat2 r')" by (auto simp: c2)
        from h(9) [OF this] a(3) show ?thesis by simp
      qed
    qed
    have 6: "activePlayers s' = activePlayers s" "adapter s' = adapter s" "sockets s' = sockets s"
      using h(2,3,4) by simp_all
    from 1 2 3 4 5 6 h(5) show ?thesis by blast
  qed
qed

lemma sweepGames_effect:
  assumes "distinct gs" and "set gs \<subseteq> dom (map_of (gameRooms s))"
      and "\<forall>g\<in>set gs. \<forall>cat. map_of (gameRooms s) g = Some cat \<longrightarrow> distinct (map fst cat)"
  shows "\<exists>s' ms. sweepGames now gs s = Inr s'
      \<and> activePlayers s' = activePlayers s \<and> adapter s' = adapter s \<and> sockets s' = sockets s
      \<and> (\<forall>g r. lookupRoom s' g r =
            (if g \<in> set gs \<and> idleRoom now (lookupRoom s g r) then None else lookupRoom s g r))
      \<and> outbox s' = outbox s @ ms
      \<and> (\<forall>g\<in>set gs. \<forall>r. idleRoom now (lookupRoom s g r) \<longrightarrow>
            (\<forall>t\<in>set (adapter s r). (t, RoomClosed ''inactivity'' r) \<in> set ms))"
  using assms
proof (induction gs arbitrary: s)
  case Nil
  then show ?case by simp
next
  case (Cons g gs)
  from Cons.prems obtain cat where cat: "map_of (gameRooms s) g = Some cat" by auto
  with Cons.prems have dc: "distinct (map fst cat)" by auto
  from Cons.prems have ng: "g \<notin> set gs" and dgs: "distinct gs" by auto
  have sub: "set (map fst cat) \<subseteq> dom (map_of cat)"
    by (simp add: dom_map_of_conv_image_fst)
  from sweepRooms_effect [OF cat dc sub, of now]
  obtain s1 cat1 ms1 where h: "sweepRooms now g (map fst cat) s = Inr s1"
      "activePlayers s1 = activePlayers s" "adapter s1 = adapter s" "sockets s1 = sockets s"
      "map_of (gameRooms s1) g = Some cat1"
      "\<And>r. map_of cat1 r = (if r \<in> set (map fst cat) \<and> idleRoom now (map_of cat r) then None else map_of cat r)"
      "\<And>g'. g' \<noteq> g \<Longrightarrow> map_of (gameRooms s1) g' = map_of (gameRooms s) g'"
      "outbox s1 = outbox s @ ms1"
      "\<And>r. r \<in> set (map fst cat) \<Longrightarrow> idleRoom now (map_of cat r) \<Longrightarrow>
            (\<forall>t\<in>set (adapter s r). (t, RoomClosed ''inactivity'' r) \<in> set ms1)"
    by blast
  have idle_dom: "r \<in> set (map fst cat)" if "idleRoom now (map_of cat r)" for r
    using that by (auto simp: idleRoom_def split: option.splits dest: map_of_SomeD intro: rev_image_eqI)
  have c1: "map_of cat1 r = (if idleRoom now (map_of cat r) then None else map_of cat r)" for r
    using h(6) [of r] idle_dom [of r] by auto
  define s2 where "s2 = (if length cat1 = 0 then s1\<lparr>gameRooms := AList.delete g (gameRooms s1)\<rparr> else s1)"
  have other: "map_of (gameRooms s2) g' = map_of (gameRooms s) g'" if "g' \<noteq> g" for g'
    using that h(7) by (simp add: s2_def AList.delete_conv')
  have l2g: "lookupRoom s2 g r = map_of cat1 r" for r
    by (auto simp: s2_def lookupRoom_def AList.delete_conv' h(5))
  have f2: "activePlayers s2 = activePlayers s" "adapter s2 = adapter s" "sockets s2 = sockets s"
    "outbox s2 = outbox s @ ms1"
    using h(2,3,4,8) by (simp_all add: s2_def)
  have l2o: "lookupRoom s2 g' r = lookupRoom s g' r" if "g' \<noteq> g" for g' r
    using other [OF that] by (simp add: lookupRoom_def)
  have lsg: "lookupRoom s g r = map_of cat r" for r
    by (simp add: lookupRoom_def cat)
  have p2: "set gs \<subseteq> dom (map_of (gameRooms s2))"
  proof
    fix g' assume a: "g' \<in> set gs"
    with ng have "g' \<noteq> g" by auto
    from other [OF this] a Cons.prems(2) show "g' \<in> dom (map_of (gameRooms s2))"
      by (auto simp: dom_def)
  qed
  have p3: "\<forall>g'\<in>set gs. \<forall>cat. map_of (gameRooms s2) g' = Some cat \<longrightarrow> distinct (map fst cat)"
  proof (intro ballI allI impI)
    fix g' c assume a: "g' \<in> set gs" "map_of (gameRooms s2) g' = Some c"
    with ng have "g' \<noteq> g" by auto
    from other [OF this] a Cons.prems(3) show "distinct (map fst c)" by auto
  qed
  from Cons.IH [OF dgs p2 p3]
  obtain s' ms where k: "sweepGames now gs s2 = Inr s'"
      "activePlayers s' = activePlayers s2" "adapter s' = adapter s2" "sockets s' = sockets s2"
      "\<And>g r. lookupRoom s' g r =
            (if g \<in> set gs \<and> idleRoom now (lookupRoom s2 g r) then None else lookupRoom s2 g r)"
      "outbox s' = outbox s2 @ ms"
      "\<And>g r. g \<in> set gs \<Longrightarrow> idleRoom now (lookupRoom s2 g r) \<Longrightarrow>
            (\<forall>t\<in>set (adapter s2 r). (t, RoomClosed ''inactivity'' r) \<in> set ms)"
    by blast
  have 1: "sweepGames now (g # gs) s = Inr s'"
    using cat h(1,5) k(1) by (simp add: s2_def)
  have 2: "activePlayers s' = activePlayers s" "adapter s' = adapter s" "sockets s' = sockets s"
    using k(2,3,4) f2 by simp_all
  have 3: "lookupRoom s' g' r =
            (if g' \<in> set (g # gs) \<and> idleRoom now (lookupRoom s g' r) then None else lookupRoom s g' r)" for g' r
  proof (cases "g' = g")
    case True
    with ng show ?thesis by (simp add: k(5) l2g c1 lsg)
  next
    case False
    then show ?thesis by (simp add: k(5) l2o)
  qed
  have 4: "outbox s' = outbox s @ (ms1 @ ms)"
    using k(6) f2 by simp
  have ad2: "adapter s2 = adapter s" by (rule f2)
  have 5: "\<forall>g'\<in>set (g # gs). \<forall>r. idleRoom now (lookupRoom s g' r) \<longrightarrow>
            (\<forall>t\<in>set (adapter s r). (t, RoomClosed ''inactivity'' r) \<in> set (ms1 @ ms))"
  proof (intro ballI allI impI)
    fix g' r t
    assume a: "g' \<in> set (g # gs)" "idleRoom now (lookupRoom s g' r)" "t \<in> set (adapter s r)"
    show "(t, RoomClosed ''inactivity'' r) \<in> set (ms1 @ ms)"
    proof (cases "g' = g")
      case True
      with a have i: "idleRoom now (map_of cat r)" by (simp add: lsg)
      from h(9) [OF idle_dom [OF i] i] a(3) show ?thesis by simp
    next
      case False
      with a have "g' \<in> set gs" "idleRoom now (lookupRoom s2 g' r)" by (simp_all add: l2o)
      from k(7) [OF this] a(3) ad2 show ?thesis by simp
    qed
  qed
  from 1 2 3 4 5 show ?case by blast
qed

lemma stateUpdate_no_room:
  assumes "map_of (activePlayers s) sid = Some p"
      and "lookupRoom s (keyOf (ap_gameId p)) (keyOf roomId) = None"
  shows "gameRooms (stateUpdate now sid roomId st s) = gameRooms s"
  using assms
  by (auto simp: stateUpdate_def Let_def lookupRoom_def split: option.splits)

section \<open>Reachable states\<close>

text \<open>
  The invariants below hold in every state that a run of enabled events reaches from
  the initial state. They are proved for each handler and then by induction on the run.
\<close>

lemma joinedOwnRooms_subscribed: "joinedOwnRooms s = list_all (subscribed (adapter s)) (activePlayers s)"
  by (simp add: joinedOwnRooms_def subscribed_def)

lemma subscribed_mono:
  assumes "\<And>r. set (ad r) \<subseteq> set (ad' r)" and "list_all (subscribed ad) al"
  shows "list_all (subscribed ad') al"
  using assms
  by (fastforce simp: list_all_iff subscribed_def split: option.splits)

lemma connInv_initial: "connInv (initial t)"
  by (simp add: connInv_def initial_def joinedOwnRooms_def)

lemma connection_fields:
  "activePlayers (connection now sid s) =
     AList.update sid \<lparr>ap_id = sid, ap_roomId = None, ap_gameId = None,
                       ap_joinedAt = now, ap_lastActivity = now\<rparr> (activePlayers s)"
  "sockets (connection now sid s) = sockets s"
  "adapter (connection now sid s) = adapter s"
  "gameRooms (connection now sid s) = gameRooms s"
  "outbox (connection now sid s) = outbox s"
  by (simp_all add: connection_def Let_def)

lemma socket_open_fields:
  "activePlayers (socket_open sid s) = activePlayers s"
  "sockets (socket_open sid s) = sockets s @ [sid]"
  "gameRooms (socket_open sid s) = gameRooms s"
  "outbox (socket_open sid s) = outbox s"
  "set (adapter s r) \<subseteq> set (adapter (socket_open sid s) r)"
  by (auto simp: socket_open_def socket_join_def)

lemma socket_join_adapter:
  "set (adapter (socket_join sid r s) r') = (if r' = r then insert sid (set (adapter s r')) else set (adapter s r'))"
  by (auto simp: socket_join_def)

lemma connInv_connection:
  assumes "connInv s"
  shows "connInv (connection now sid (socket_open sid s))"
proof -
  let ?s' = "connection now sid (socket_open sid s)"
  let ?rec = "\<lparr>ap_id = sid, ap_roomId = None, ap_gameId = None, ap_joinedAt = now, ap_lastActivity = now\<rparr>"
  have a: "activePlayers ?s' = AList.update sid ?rec (activePlayers s)"
    by (simp add: connection_fields socket_open_fields)
  have 1: "distinct (map fst (activePlayers ?s'))"
    using assms by (simp add: a connInv_def AList.distinct_update)
  have 2: "set (map fst (activePlayers ?s')) = set (sockets ?s')"
    using assms by (auto simp: a connInv_def connection_fields socket_open_fields AList.update_keys)
  have "list_all (subscribed (adapter ?s')) (activePlayers s)"
  proof (rule subscribed_mono [of "adapter s"])
    show "set (adapter s r) \<subseteq> set (adapter ?s' r)" for r
      using socket_open_fields(5) [of s r sid] by (simp add: connection_fields)
    show "list_all (subscribed (adapter s)) (activePlayers s)"
      using assms by (simp add: connInv_def joinedOwnRooms_subscribed)
  qed
  then have 3: "joinedOwnRooms ?s'"
    unfolding joinedOwnRooms_subscribed a
    by (rule list_all_update) (simp add: subscribed_def)
  from 1 2 3 show ?thesis by (simp add: connInv_def)
qed

lemma connInv_joinGame:
  assumes "connInv s" and "joinGame now rendering sid gameId roomId playerData s = Inr s'"
  shows "connInv s'"
proof (cases "map_of (activePlayers s) sid")
  case None
  with assms(2) show ?thesis by (simp add: joinGame_def Let_def)
next
  case (Some p)
  let ?r = "targetRoom rendering roomId"
  from joinGame_state [OF Some, of now rendering gameId roomId playerData] assms(2)
  have a: "activePlayers s' = AList.update sid (p\<lparr>ap_roomId := Some ?r, ap_gameId := Some gameId\<rparr>) (activePlayers s)"
    and ad: "adapter s' = adapter (socket_join sid ?r s)" and so: "sockets s' = sockets s"
    by auto
  from Some have k: "sid \<in> set (map fst (activePlayers s))"
    by (auto dest!: map_of_SomeD intro: rev_image_eqI)
  have 1: "distinct (map fst (activePlayers s'))"
    using assms(1) by (simp add: a connInv_def AList.distinct_update)
  have 2: "set (map fst (activePlayers s')) = set (sockets s')"
    using assms(1) k by (auto simp: a so connInv_def AList.update_keys)
  have "list_all (subscribed (adapter s')) (activePlayers s)"
  proof (rule subscribed_mono [of "adapter s"])
    show "set (adapter s r) \<subseteq> set (adapter s' r)" for r
      by (auto simp: ad socket_join_adapter)
    show "list_all (subscribed (adapter s)) (activePlayers s)"
      using assms(1) by (simp add: connInv_def joinedOwnRooms_subscribed)
  qed
  then have 3: "joinedOwnRooms s'"
    unfolding joinedOwnRooms_subscribed a
    by (rule list_all_update) (simp add: subscribed_def ad socket_join_adapter)
  from 1 2 3 show ?thesis by (simp add: connInv_def)
qed

lemma connInv_cong:
  assumes "activePlayers s' = activePlayers s" and "sockets s' = sockets s" and "adapter s' = adapter s"
  shows "connInv s' = connInv s"
  using assms unfolding connInv_def joinedOwnRooms_subscribed by simp

lemma connInv_touch:
  assumes "connInv s" and "map_of (activePlayers s) sid = Some p"
      and "activePlayers s' = AList.update sid (p\<lparr>ap_lastActivity := now\<rparr>) (activePlayers s)"
      and "sockets s' = sockets s" and "adapter s' = adapter s"
  shows "connInv s'"
proof -
  from assms(2) have k: "sid \<in> set (map fst (activePlayers s))"
    by (auto dest!: map_of_SomeD intro: rev_image_eqI)
  from assms(1) have j: "list_all (subscribed (adapter s)) (activePlayers s)"
    by (simp add: connInv_def joinedOwnRooms_subscribed)
  from map_of_list_all [OF j assms(2)] have "subscribed (adapter s) (sid, p\<lparr>ap_lastActivity := now\<rparr>)"
    by (simp add: subscribed_def)
  with j have "list_all (subscribed (adapter s)) (AList.update sid (p\<lparr>ap_lastActivity := now\<rparr>) (activePlayers s))"
    by (rule list_all_update)
  with assms k show ?thesis
    by (auto simp: connInv_def joinedOwnRooms_subscribed AList.distinct_update AList.update_keys)
qed

lemma stateUpdate_frame:
  "sockets (stateUpdate now sid roomId st s) = sockets s"
  "adapter (stateUpdate now sid roomId st s) = adapter s"
  "activePlayers (stateUpdate now sid roomId st s) =
     (case map_of (activePlayers s) sid of
        None \<Rightarrow> activePlayers s
      | Some p \<Rightarrow> if truthy (ap_roomId p)
                  then AList.update sid (p\<lparr>ap_lastActivity := now\<rparr>) (activePlayers s)
                  else activePlayers s)"
  by (simp_all add: stateUpdate_def Let_def split: option.split)

lemma gameEvent_frame:
  "sockets (gameEvent now sid roomId ty d s) = sockets s"
  "adapter (gameEvent now sid roomId ty d s) = adapter s"
  "activePlayers (gameEvent now sid roomId ty d s) =
     (case map_of (activePlayers s) sid of
        None \<Rightarrow> activePlayers s
      | Some p \<Rightarrow> if truthy (ap_roomId p)
                  then AList.update sid (p\<lparr>ap_lastActivity := now\<rparr>) (activePlayers s)
                  else activePlayers s)"
  by (simp_all add: gameEvent_def Let_def split: option.split)

lemma connInv_stateUpdate:
  assumes "connInv s"
  shows "connInv (stateUpdate now sid roomId st s)"
proof (cases "map_of (activePlayers s) sid")
  case None
  then have "connInv (stateUpdate now sid roomId st s) = connInv s"
    by (intro connInv_cong) (simp_all add: stateUpdate_frame)
  with assms show ?thesis by simp
next
  case (Some p)
  show ?thesis
  proof (cases "truthy (ap_roomId p)")
    case True
    with Some show ?thesis
      by (intro connInv_touch [OF assms Some, of _ now]) (simp_all add: stateUpdate_frame)
  next
    case False
    with Some have "connInv (stateUpdate now sid roomId st s) = connInv s"
      by (intro connInv_cong) (simp_all add: stateUpdate_frame)
    with assms show ?thesis by simp
  qed
qed

lemma connInv_gameEvent:
  assumes "connInv s"
  shows "connInv (gameEvent now sid roomId ty d s)"
proof (cases "map_of (activePlayers s) sid")
  case None
  then have "connInv (gameEvent now sid roomId ty d s) = connInv s"
    by (intro connInv_cong) (simp_all add: gameEvent_frame)
  with assms show ?thesis by simp
next
  case (Some p)
  show ?thesis
  proof (cases "truthy (ap_roomId p)")
    case True
    with Some show ?thesis
      by (intro connInv_touch [OF assms Some, of _ now]) (simp_all add: gameEvent_frame)
  next
    case False
    with Some have "connInv (gameEvent now sid roomId ty d s) = connInv s"
      by (intro connInv_cong) (simp_all add: gameEvent_frame)
    with assms show ?thesis by simp
  qed
qed

lemma list_all_delete_key:
  assumes "list_all P al" and "\<And>k v. k \<noteq> sid \<Longrightarrow> P (k, v) \<Longrightarrow> Q (k, v)"
  shows "list_all Q (AList.delete sid al)"
  using assms by (induction al) auto

lemma connInv_drop_record:
  assumes "connInv s" and "activePlayers s' = AList.delete sid (activePlayers s)"
      and "set (sockets s') = set (sockets s) - {sid}"
      and "\<And>r. set (adapter s r) - {sid} \<subseteq> set (adapter s' r)"
  shows "connInv s'"
proof -
  from assms(1) have j: "list_all (subscribed (adapter s)) (activePlayers s)"
    by (simp add: connInv_def joinedOwnRooms_subscribed)
  have "list_all (subscribed (adapter s')) (AList.delete sid (activePlayers s))"
    using j
  proof (rule list_all_delete_key)
    fix k v assume "k \<noteq> sid" "subscribed (adapter s) (k, v)"
    then show "subscribed (adapter s') (k, v)"
      using assms(4) by (auto simp: subscribed_def split: option.splits)
  qed
  with assms show ?thesis
    by (auto simp: connInv_def joinedOwnRooms_subscribed AList.delete_keys distinct_removeAll)
qed

lemma socket_disconnect_adapter:
  "adapter (socket_disconnect now sid s) r = removeAll sid (adapter s r)"
  by (simp add: socket_disconnect_def disconnect_adapter)

lemma connInv_socket_disconnect:
  assumes "connInv s"
  shows "connInv (socket_disconnect now sid s)"
  by (rule connInv_drop_record [OF assms, of _ sid])
     (auto simp: socket_disconnect_fields socket_disconnect_adapter)

lemma connInv_sweepPlayers:
  assumes "connInv s" and "sweepPlayers now ids s = Inr s'"
  shows "connInv s'"
  using assms
proof (induction ids arbitrary: s)
  case Nil
  then show ?case by simp
next
  case (Cons i ids)
  from Cons.prems(2) obtain p where p: "map_of (activePlayers s) i = Some p"
    by (cases "map_of (activePlayers s) i") auto
  show ?case
  proof (cases "now - ap_lastActivity p > INACTIVITY_TIMEOUT")
    case False
    with Cons p show ?thesis by simp
  next
    case True
    show ?thesis
    proof (cases "i \<in> set (sockets s)")
      case True
      with Cons.prems p \<open>now - ap_lastActivity p > INACTIVITY_TIMEOUT\<close>
      have "sweepPlayers now ids (socket_disconnect now i s) = Inr s'" by simp
      with connInv_socket_disconnect [OF Cons.prems(1)] show ?thesis by (rule Cons.IH)
    next
      case False
      let ?s1 = "s\<lparr>activePlayers := AList.delete i (activePlayers s)\<rparr>"
      from False Cons.prems p \<open>now - ap_lastActivity p > INACTIVITY_TIMEOUT\<close>
      have r: "sweepPlayers now ids ?s1 = Inr s'" by simp
      have "connInv ?s1"
        by (rule connInv_drop_record [OF Cons.prems(1), of _ i]) (use False in auto)
      from this r show ?thesis by (rule Cons.IH)
    qed
  qed
qed

lemma sweepRooms_frame:
  assumes "sweepRooms now g rs s = Inr s'"
  shows "activePlayers s' = activePlayers s \<and> sockets s' = sockets s \<and> adapter s' = adapter s"
  using assms
proof (induction rs arbitrary: s)
  case Nil
  then show ?case by simp
next
  case (Cons r rs)
  from Cons.prems obtain cat where cat: "map_of (gameRooms s) g = Some cat"
    by (cases "map_of (gameRooms s) g") auto
  with Cons.prems obtain room0 where room0: "map_of cat r = Some room0"
    by (cases "map_of cat r") auto
  show ?case
  proof (cases "now - lastActivity room0 > INACTIVITY_TIMEOUT")
    case True
    let ?s1 = "io_to_emit (Some r) (RoomClosed ''inactivity'' r) (sent s)"
    let ?s2 = "?s1\<lparr>gameRooms := AList.update g (AList.delete r cat) (gameRooms ?s1)\<rparr>"
    from True Cons.prems cat room0 have "sweepRooms now g rs ?s2 = Inr s'" by (simp add: Let_def)
    from Cons.IH [OF this] show ?thesis by simp
  next
    case False
    with Cons.prems cat room0 have "sweepRooms now g rs s = Inr s'" by simp
    from Cons.IH [OF this] show ?thesis .
  qed
qed

lemma sweepGames_frame:
  assumes "sweepGames now gs s = Inr s'"
  shows "activePlayers s' = activePlayers s \<and> sockets s' = sockets s \<and> adapter s' = adapter s"
  using assms
proof (induction gs arbitrary: s)
  case Nil
  then show ?case by simp
next
  case (Cons g gs)
  from Cons.prems obtain cat where cat: "map_of (gameRooms s) g = Some cat"
    by (cases "map_of (gameRooms s) g") auto
  with Cons.prems obtain s1 where s1: "sweepRooms now g (map fst cat) s = Inr s1"
    by (cases "sweepRooms now g (map fst cat) s") auto
  with Cons.prems cat obtain cat1 where cat1: "map_of (gameRooms s1) g = Some cat1"
    by (cases "map_of (gameRooms s1) g") auto
  define s2 where "s2 = (if length cat1 = 0 then s1\<lparr>gameRooms := AList.delete g (gameRooms s1)\<rparr> else s1)"
  from Cons.prems cat s1 cat1 have "sweepGames now gs s2 = Inr s'" by (simp add: s2_def)
  from Cons.IH [OF this] sweepRooms_frame [OF s1] show ?case by (simp add: s2_def split: if_splits)
qed

lemma connInv_cleanup:
  assumes "connInv s" and "cleanup now s = Inr s'"
  shows "connInv s'"
proof -
  from assms(2) obtain s1 where 1: "sweepPlayers now (map fst (activePlayers s)) s = Inr s1"
    and 2: "sweepGames now (map fst (gameRooms s1)) s1 = Inr s'"
    by (auto simp: cleanup_def cleanupPlayers_def cleanupRooms_def split: sum.splits)
  from connInv_sweepPlayers [OF assms(1) 1] have "connInv s1" .
  moreover from sweepGames_frame [OF 2] have "connInv s' = connInv s1"
    by (intro connInv_cong) simp_all
  ultimately show ?thesis by simp
qed

lemma connInv_step:
  assumes "connInv s" and "step e s = Inr s'"
  shows "connInv s'"
proof (cases e)
  case (Connect now sid)
  with assms show ?thesis by (auto simp: connInv_connection)
next
  case (Join now rendering sid gameId roomId playerData)
  with assms show ?thesis by (auto intro: connInv_joinGame)
next
  case (Update now sid roomId state)
  with assms show ?thesis by (auto simp: connInv_stateUpdate)
next
  case (Event now sid roomId eventType eventData)
  with assms show ?thesis by (auto simp: connInv_gameEvent)
next
  case (Close now sid)
  with assms show ?thesis by (auto simp: connInv_socket_disconnect)
next
  case (Cleanup now)
  with assms show ?thesis by (auto intro: connInv_cleanup)
qed

lemma reachable_connInv: "reachable s \<Longrightarrow> connInv s"
  by (induction rule: reachable.induct) (auto intro: connInv_initial connInv_step)

lemma wfDir_update:
  assumes "wfDir s" and "gameRooms s' = AList.update g cat (gameRooms s)"
      and "distinct (map fst cat)" and "list_all distinctPlayers cat"
  shows "wfDir s'"
  using assms
  by (simp add: wfDir_def AList.distinct_update list_all_update distinctKeys_def)

lemma wfDir_delete:
  assumes "wfDir s" and "gameRooms s' = AList.delete g (gameRooms s)"
  shows "wfDir s'"
  using assms
  by (simp add: wfDir_def AList.distinct_delete list_all_delete)

lemma wfDir_cat:
  assumes "wfDir s" and "map_of (gameRooms s) g = Some cat"
  shows "distinct (map fst cat)" and "list_all distinctPlayers cat"
proof -
  from assms(1) have "list_all distinctKeys (gameRooms s)" by (simp add: wfDir_def)
  from map_of_list_all [OF this assms(2)]
  show "distinct (map fst cat)" and "list_all distinctPlayers cat"
    by (simp_all add: distinctKeys_def)
qed

lemma wfDir_room:
  assumes "wfDir s" and "lookupRoom s g r = Some room0"
  shows "distinct (map fst (players room0))"
proof -
  from assms(2) obtain cat where c: "map_of (gameRooms s) g = Some cat" "map_of cat r = Some room0"
    by (auto simp: lookupRoom_def split: option.splits)
  from map_of_list_all [OF wfDir_cat(2) [OF assms(1) c(1)] c(2)] show ?thesis
    by (simp add: distinctPlayers_def)
qed

lemma preExisting_distinct: "wfDir s \<Longrightarrow> distinct (map fst (preExisting s g r))"
  by (cases "lookupRoom s g r") (simp_all add: preExisting_def wfDir_room)

lemma dirInv_cat:
  assumes "dirInv s" and "map_of (gameRooms s) g = Some cat"
  shows "cat \<noteq> [] \<and> list_all roomOK cat"
proof -
  from assms(1) have "list_all catOK (gameRooms s)" by (simp add: dirInv_def)
  from map_of_list_all [OF this assms(2)] show ?thesis by (simp add: catOK_def)
qed

lemma dirInv_update:
  assumes "dirInv s" and "gameRooms s' = AList.update g cat (gameRooms s)"
      and "cat \<noteq> []" and "list_all roomOK cat"
  shows "dirInv s'"
  using assms by (simp add: dirInv_def list_all_update catOK_def)

lemma wfDir_initial: "wfDir (initial t)" and dirInv_initial: "dirInv (initial t)"
  by (simp_all add: wfDir_def dirInv_def initial_def)

lemma dir_joinGame:
  assumes "wfDir s" and "dirInv s" and "joinGame now rendering sid gameId roomId playerData s = Inr s'"
  shows "wfDir s' \<and> dirInv s'"
proof (cases "map_of (activePlayers s) sid")
  case None
  with assms(3) show ?thesis by (simp add: joinGame_def Let_def)
next
  case (Some p)
  let ?r = "targetRoom rendering roomId"
  let ?cat0 = "case map_of (gameRooms s) gameId of None \<Rightarrow> [] | Some c \<Rightarrow> c"
  let ?room1 = "(case lookupRoom s gameId ?r of
                 None \<Rightarrow> \<lparr>room_roomId = ?r, room_gameId = gameId,
                          players = [], createdAt = now, lastActivity = now\<rparr>
               | Some r \<Rightarrow> r)
              \<lparr>players := AList.update sid (objLit (stamps sid now @ spread playerData))
                            (preExisting s gameId ?r)\<rparr>"
  from joinGame_state [OF Some, of now rendering gameId roomId playerData] assms(3)
  have g: "gameRooms s' = AList.update gameId (AList.update ?r ?room1 ?cat0) (gameRooms s)"
    by auto
  have d0: "distinct (map fst ?cat0)" "list_all distinctPlayers ?cat0"
    using wfDir_cat [OF assms(1)] by (simp_all split: option.split)
  have "distinctPlayers (?r, ?room1)"
    by (simp add: distinctPlayers_def AList.distinct_update preExisting_distinct [OF assms(1)])
  with d0(2) have p1: "list_all distinctPlayers (AList.update ?r ?room1 ?cat0)"
    by (rule list_all_update)
  have r0: "list_all roomOK ?cat0"
    using dirInv_cat [OF assms(2)] by (simp split: option.split)
  have "roomOK (?r, ?room1)" by (simp add: roomOK_def)
  with r0 have r1: "list_all roomOK (AList.update ?r ?room1 ?cat0)" by (rule list_all_update)
  have "wfDir s'"
    using assms(1) g by (rule wfDir_update) (simp_all add: AList.distinct_update d0 p1)
  moreover have "dirInv s'"
    using assms(2) g by (rule dirInv_update) (simp_all add: r1)
  ultimately show ?thesis ..
qed

lemma stateUpdate_gameRooms:
  "gameRooms (stateUpdate now sid roomId st s) = gameRooms s
   \<or> (\<exists>g r cat room0 room2. map_of (gameRooms s) g = Some cat \<and> map_of cat r = Some room0
        \<and> (players room2 = players room0 \<or> (\<exists>v. players room2 = AList.update sid v (players room0)))
        \<and> gameRooms (stateUpdate now sid roomId st s)
             = AList.update g (AList.update r room2 cat) (gameRooms s))"
proof (cases "map_of (activePlayers s) sid")
  case None
  then show ?thesis by (simp add: stateUpdate_def Let_def)
next
  case (Some p)
  show ?thesis
  proof (cases "truthy (ap_roomId p)")
    case False
    with Some show ?thesis by (simp add: stateUpdate_def Let_def)
  next
    case True
    show ?thesis
    proof (cases "map_of (gameRooms s) (keyOf (ap_gameId p))")
      case None
      with Some True show ?thesis by (simp add: stateUpdate_def Let_def)
    next
      case cat: (Some cat)
      show ?thesis
      proof (cases "map_of cat (keyOf roomId)")
        case None
        with Some True cat show ?thesis by (simp add: stateUpdate_def Let_def)
      next
        case room0: (Some room0)
        show ?thesis
        proof (cases "map_of (players room0) sid")
          case None
          with Some True cat room0
          have "gameRooms (stateUpdate now sid roomId st s)
                = AList.update (keyOf (ap_gameId p))
                    (AList.update (keyOf roomId) (room0\<lparr>lastActivity := now\<rparr>) cat) (gameRooms s)"
            by (simp add: stateUpdate_def Let_def)
          moreover have "players (room0\<lparr>lastActivity := now\<rparr>) = players room0" by simp
          ultimately show ?thesis using cat room0 by blast
        next
          case old: (Some old)
          let ?room2 = "room0\<lparr>lastActivity := now,
                          players := AList.update sid
                            (objLit (old @ spread st @ [(''lastActivity'', Num now)])) (players room0)\<rparr>"
          from Some True cat room0 old
          have "gameRooms (stateUpdate now sid roomId st s)
                = AList.update (keyOf (ap_gameId p)) (AList.update (keyOf roomId) ?room2 cat) (gameRooms s)"
            by (simp add: stateUpdate_def Let_def)
          moreover have "\<exists>v. players ?room2 = AList.update sid v (players room0)" by auto
          ultimately show ?thesis using cat room0 by blast
        qed
      qed
    qed
  qed
qed

lemma dir_stateUpdate:
  assumes "wfDir s" and "dirInv s"
  shows "wfDir (stateUpdate now sid roomId st s) \<and> dirInv (stateUpdate now sid roomId st s)"
proof -
  let ?s' = "stateUpdate now sid roomId st s"
  from stateUpdate_gameRooms [of now sid roomId st s] show ?thesis
  proof
    assume "gameRooms ?s' = gameRooms s"
    with assms show ?thesis by (simp add: wfDir_def dirInv_def)
  next
    assume "\<exists>g r cat room0 room2. map_of (gameRooms s) g = Some cat \<and> map_of cat r = Some room0
        \<and> (players room2 = players room0 \<or> (\<exists>v. players room2 = AList.update sid v (players room0)))
        \<and> gameRooms ?s' = AList.update g (AList.update r room2 cat) (gameRooms s)"
    then obtain g r cat room0 room2 where h: "map_of (gameRooms s) g = Some cat"
      "map_of cat r = Some room0"
      "players room2 = players room0 \<or> (\<exists>v. players room2 = AList.update sid v (players room0))"
      "gameRooms ?s' = AList.update g (AList.update r room2 cat) (gameRooms s)"
      by blast
    from dirInv_cat [OF assms(2) h(1)] have c: "list_all roomOK cat" by simp
    from map_of_list_all [OF c h(2)] have "players room0 \<noteq> []" by (simp add: roomOK_def)
    with h(3) have "roomOK (r, room2)" by (auto simp: roomOK_def)
    with c have r1: "list_all roomOK (AList.update r room2 cat)" by (rule list_all_update)
    from map_of_list_all [OF wfDir_cat(2) [OF assms(1) h(1)] h(2)]
    have "distinct (map fst (players room0))" by (simp add: distinctPlayers_def)
    with h(3) have "distinctPlayers (r, room2)"
      by (auto simp: distinctPlayers_def AList.distinct_update)
    with wfDir_cat(2) [OF assms(1) h(1)]
    have p1: "list_all distinctPlayers (AList.update r room2 cat)" by (rule list_all_update)
    have "wfDir ?s'"
      using assms(1) h(4)
      by (rule wfDir_update) (simp_all add: AList.distinct_update wfDir_cat(1) [OF assms(1) h(1)] p1)
    moreover have "dirInv ?s'"
      using assms(2) h(4) by (rule dirInv_update) (simp_all add: r1)
    ultimately show ?thesis ..
  qed
qed

lemma wfDir_disconnect:
  assumes "wfDir s"
  shows "wfDir (disconnect now sid s)"
proof -
  from disconnect_cases [of now sid s] show ?thesis
  proof
    assume "gameRooms (disconnect now sid s) = gameRooms s"
    with assms show ?thesis by (simp add: wfDir_def)
  next
    assume "\<exists>p r g cat room0. map_of (activePlayers s) sid = Some p
        \<and> ap_roomId p = Some r \<and> ap_gameId p = Some g \<and> r \<noteq> [] \<and> g \<noteq> []
        \<and> map_of (gameRooms s) g = Some cat \<and> map_of cat r = Some room0"
    then obtain p r g cat room0 where h: "map_of (activePlayers s) sid = Some p"
        "ap_roomId p = Some r" "ap_gameId p = Some g" "r \<noteq> []" "g \<noteq> []"
        "map_of (gameRooms s) g = Some cat" "map_of cat r = Some room0" by blast
    note g = disconnect_member(1) [OF h, of now]
    note d = wfDir_cat(1) [OF assms h(6)]
    note dp = wfDir_cat(2) [OF assms h(6)]
    from map_of_list_all [OF dp h(7)]
    have "distinctPlayers (r, room0\<lparr>players := AList.delete sid (players room0)\<rparr>)"
      by (simp add: distinctPlayers_def AList.distinct_delete)
    with dp have p1: "list_all distinctPlayers
        (AList.update r (room0\<lparr>players := AList.delete sid (players room0)\<rparr>) cat)"
      by (rule list_all_update)
    show ?thesis
    proof (cases "AList.delete sid (players room0) = []")
      case False
      with g have "gameRooms (disconnect now sid s) = AList.update g
                   (AList.update r (room0\<lparr>players := AList.delete sid (players room0)\<rparr>) cat)
                   (gameRooms s)" by simp
      with assms show ?thesis by (rule wfDir_update) (simp_all add: AList.distinct_update d p1)
    next
      case True
      show ?thesis
      proof (cases "AList.delete r cat = []")
        case True
        with \<open>AList.delete sid (players room0) = []\<close> g
        have "gameRooms (disconnect now sid s) = AList.delete g (gameRooms s)" by simp
        with assms show ?thesis by (rule wfDir_delete)
      next
        case False
        with \<open>AList.delete sid (players room0) = []\<close> g
        have "gameRooms (disconnect now sid s) = AList.update g (AList.delete r cat) (gameRooms s)"
          by simp
        with assms show ?thesis
          by (rule wfDir_update) (simp_all add: AList.distinct_delete d list_all_delete dp)
      qed
    qed
  qed
qed

lemma dir_sweepRooms:
  assumes "wfDir s" and "list_all (weakOK g) (gameRooms s)" and "sweepRooms now g rs s = Inr s'"
  shows "wfDir s' \<and> list_all (weakOK g) (gameRooms s')"
  using assms
proof (induction rs arbitrary: s)
  case Nil
  then show ?case by simp
next
  case (Cons r rs)
  from Cons.prems obtain cat where cat: "map_of (gameRooms s) g = Some cat"
    by (cases "map_of (gameRooms s) g") auto
  with Cons.prems obtain room0 where room0: "map_of cat r = Some room0"
    by (cases "map_of cat r") auto
  show ?case
  proof (cases "now - lastActivity room0 > INACTIVITY_TIMEOUT")
    case False
    with Cons.prems cat room0 have "sweepRooms now g rs s = Inr s'" by simp
    from Cons.IH [OF Cons.prems(1,2) this] show ?thesis .
  next
    case True
    let ?s1 = "io_to_emit (Some r) (RoomClosed ''inactivity'' r) (sent s)"
    let ?s2 = "?s1\<lparr>gameRooms := AList.update g (AList.delete r cat) (gameRooms ?s1)\<rparr>"
    from True Cons.prems cat room0 have run: "sweepRooms now g rs ?s2 = Inr s'" by (simp add: Let_def)
    have g2: "gameRooms ?s2 = AList.update g (AList.delete r cat) (gameRooms s)" by simp
    have w: "wfDir ?s2"
      using Cons.prems(1) g2
      by (rule wfDir_update)
         (simp_all add: AList.distinct_delete list_all_delete wfDir_cat [OF Cons.prems(1) cat])
    from map_of_list_all [OF Cons.prems(2) cat] have "list_all roomOK cat" by (simp add: weakOK_def)
    then have "weakOK g (g, AList.delete r cat)" by (simp add: weakOK_def list_all_delete)
    with Cons.prems(2) have k: "list_all (weakOK g) (gameRooms ?s2)"
      unfolding g2 by (rule list_all_update)
    from Cons.IH [OF w k run] show ?thesis .
  qed
qed

lemma dir_sweepGames:
  assumes "wfDir s" and "dirInv s" and "sweepGames now gs s = Inr s'"
  shows "wfDir s' \<and> dirInv s'"
  using assms
proof (induction gs arbitrary: s)
  case Nil
  then show ?case by simp
next
  case (Cons g gs)
  from Cons.prems obtain cat where cat: "map_of (gameRooms s) g = Some cat"
    by (cases "map_of (gameRooms s) g") auto
  with Cons.prems obtain s1 where s1: "sweepRooms now g (map fst cat) s = Inr s1"
    by (cases "sweepRooms now g (map fst cat) s") auto
  with Cons.prems cat obtain cat1 where cat1: "map_of (gameRooms s1) g = Some cat1"
    by (cases "map_of (gameRooms s1) g") auto
  define s2 where "s2 = (if length cat1 = 0 then s1\<lparr>gameRooms := AList.delete g (gameRooms s1)\<rparr> else s1)"
  from Cons.prems cat s1 cat1 have run: "sweepGames now gs s2 = Inr s'" by (simp add: s2_def)
  from Cons.prems(2) have "list_all (weakOK g) (gameRooms s)"
    by (auto simp: dirInv_def list_all_iff catOK_def weakOK_def)
  from dir_sweepRooms [OF Cons.prems(1) this s1]
  have w1: "wfDir s1" and k1: "list_all (weakOK g) (gameRooms s1)" by simp_all
  have w2: "wfDir s2"
  proof (cases "length cat1 = 0")
    case True
    then have "gameRooms s2 = AList.delete g (gameRooms s1)" by (simp add: s2_def)
    with w1 show ?thesis by (rule wfDir_delete)
  next
    case False
    with w1 show ?thesis by (simp add: s2_def)
  qed
  have d2: "dirInv s2"
  proof (cases "length cat1 = 0")
    case True
    then have g2: "gameRooms s2 = AList.delete g (gameRooms s1)" by (simp add: s2_def)
    have "list_all catOK (AList.delete g (gameRooms s1))"
      using k1
    proof (rule list_all_delete_key)
      fix k v assume "k \<noteq> g" "weakOK g (k, v)"
      then show "catOK (k, v)" by (simp add: weakOK_def catOK_def)
    qed
    then show ?thesis by (simp add: dirInv_def g2)
  next
    case False
    have "catOK e" if e: "e \<in> set (gameRooms s1)" for e
    proof -
      obtain k v where kv: "e = (k, v)" by (cases e)
      from k1 e kv have wk: "weakOK g (k, v)" by (auto simp: list_all_iff)
      show ?thesis
      proof (cases "k = g")
        case True
        from w1 have "distinct (map fst (gameRooms s1))" by (simp add: wfDir_def)
        from map_of_is_SomeI [OF this] e kv True have "map_of (gameRooms s1) g = Some v" by simp
        with cat1 have "v = cat1" by simp
        with False wk kv show ?thesis by (simp add: weakOK_def catOK_def)
      next
        case False
        with wk kv show ?thesis by (simp add: weakOK_def catOK_def)
      qed
    qed
    then have "list_all catOK (gameRooms s1)" by (simp add: list_all_iff)
    with False show ?thesis by (simp add: dirInv_def s2_def)
  qed
  from Cons.IH [OF w2 d2 run] show ?case .
qed

lemma dir_socket_disconnect:
  assumes "wfDir s" and "dirInv s"
  shows "wfDir (socket_disconnect now sid s) \<and> dirInv (socket_disconnect now sid s)"
proof -
  have "wfDir (socket_close sid s)" "dirInv (socket_close sid s)"
    using assms by (simp_all add: wfDir_def dirInv_def)
  then show ?thesis
    unfolding socket_disconnect_def by (simp add: wfDir_disconnect disconnect_dirInv)
qed

lemma dir_sweepPlayers:
  assumes "wfDir s" and "dirInv s" and "sweepPlayers now ids s = Inr s'"
  shows "wfDir s' \<and> dirInv s'"
  using assms
proof (induction ids arbitrary: s)
  case Nil
  then show ?case by simp
next
  case (Cons i ids)
  from Cons.prems(3) obtain p where p: "map_of (activePlayers s) i = Some p"
    by (cases "map_of (activePlayers s) i") auto
  show ?case
  proof (cases "now - ap_lastActivity p > INACTIVITY_TIMEOUT")
    case False
    with Cons p show ?thesis by simp
  next
    case True
    show ?thesis
    proof (cases "i \<in> set (sockets s)")
      case True
      with Cons.prems p \<open>now - ap_lastActivity p > INACTIVITY_TIMEOUT\<close>
      have r: "sweepPlayers now ids (socket_disconnect now i s) = Inr s'" by simp
      from dir_socket_disconnect [OF Cons.prems(1,2), of now i]
      have "wfDir (socket_disconnect now i s)" "dirInv (socket_disconnect now i s)" by simp_all
      from Cons.IH [OF this r] show ?thesis .
    next
      case False
      let ?s1 = "s\<lparr>activePlayers := AList.delete i (activePlayers s)\<rparr>"
      from False Cons.prems p \<open>now - ap_lastActivity p > INACTIVITY_TIMEOUT\<close>
      have r: "sweepPlayers now ids ?s1 = Inr s'" by simp
      have "wfDir ?s1" "dirInv ?s1" using Cons.prems(1,2) by (simp_all add: wfDir_def dirInv_def)
      from Cons.IH [OF this r] show ?thesis .
    qed
  qed
qed

lemma dir_cleanup:
  assumes "wfDir s" and "dirInv s" and "cleanup now s = Inr s'"
  shows "wfDir s' \<and> dirInv s'"
proof -
  from assms(3) obtain s1 where 1: "sweepPlayers now (map fst (activePlayers s)) s = Inr s1"
    and 2: "sweepGames now (map fst (gameRooms s1)) s1 = Inr s'"
    by (auto simp: cleanup_def cleanupPlayers_def cleanupRooms_def split: sum.splits)
  from dir_sweepPlayers [OF assms(1,2) 1] have "wfDir s1" "dirInv s1" by simp_all
  from dir_sweepGames [OF this 2] show ?thesis .
qed

lemma dir_step:
  assumes "wfDir s" and "dirInv s" and "step e s = Inr s'"
  shows "wfDir s' \<and> dirInv s'"
proof (cases e)
  case (Connect now sid)
  with assms show ?thesis
    by (auto simp: wfDir_def dirInv_def connection_fields socket_open_fields)
next
  case (Join now rendering sid gameId roomId playerData)
  with assms dir_joinGame [of s now rendering sid gameId roomId playerData s'] show ?thesis by simp
next
  case (Update now sid roomId state)
  with assms dir_stateUpdate [of s now sid roomId state] show ?thesis by auto
next
  case (Event now sid roomId eventType eventData)
  with assms show ?thesis by (auto simp: wfDir_def dirInv_def gameEvent_gameRooms)
next
  case (Close now sid)
  with assms dir_socket_disconnect [of s now sid] show ?thesis by auto
next
  case (Cleanup now)
  with assms dir_cleanup [of s now s'] show ?thesis by simp
qed

lemma reachable_directory: "reachable s \<Longrightarrow> wfDir s \<and> dirInv s"
proof (induction rule: reachable.induct)
  case (reachable_initial t)
  show ?case by (simp add: wfDir_initial dirInv_initial)
next
  case (reachable_step s e s')
  then show ?case using dir_step [of s e s'] by simp
qed

lemma run_reachable:
  assumes "reachable s" and "enabledRun evs s" and "run evs s = Inr s'"
  shows "reachable s'"
  using assms
proof (induction evs arbitrary: s)
  case Nil
  then show ?case by simp
next
  case (Cons e evs)
  from Cons.prems(3) obtain s1 where s1: "step e s = Inr s1" and r: "run evs s1 = Inr s'"
    by (cases "step e s") auto
  from Cons.prems(2) s1 have en: "enabled e s" "enabledRun evs s1" by simp_all
  from Cons.prems(1) en(1) s1 have "reachable s1" by (rule reachable_step)
  from Cons.IH [OF this en(2) r] show ?case .
qed

text \<open>
  In a reachable state no handler throws: a connected socket has its player record, and
  the keys the sweeps enumerate are still there when they are read.
\<close>

lemma reachable_joinGame_returns:
  assumes "reachable s" and "sid \<in> set (sockets s)"
  shows "\<exists>s'. joinGame now rendering sid gameId roomId playerData s = Inr s'"
proof -
  from reachable_connInv [OF assms(1)] assms(2) have "sid \<in> fst ` set (activePlayers s)"
    by (simp add: connInv_def)
  then obtain p where "map_of (activePlayers s) sid = Some p"
    by (cases "map_of (activePlayers s) sid") (auto simp: map_of_eq_None_iff)
  from joinGame_state [OF this, of now rendering gameId roomId playerData] show ?thesis by blast
qed

lemma reachable_cleanup_returns:
  assumes "reachable s"
  shows "\<exists>s'. cleanup now s = Inr s'"
proof -
  from reachable_connInv [OF assms] have c: "distinct (map fst (activePlayers s))"
    "set (map fst (activePlayers s)) \<subseteq> dom (map_of (activePlayers s))"
    "set (map fst (activePlayers s)) \<subseteq> set (sockets s)"
    by (simp_all add: connInv_def dom_map_of_conv_image_fst)
  from sweepPlayers_cascade [OF c, of now] obtain s1
    where 1: "sweepPlayers now (map fst (activePlayers s)) s = Inr s1" by blast
  from reachable_directory [OF assms] have "wfDir s" "dirInv s" by simp_all
  from dir_sweepPlayers [OF this 1] have w: "wfDir s1" by simp
  then have d: "distinct (map fst (gameRooms s1))"
    and k: "\<forall>g\<in>set (map fst (gameRooms s1)). \<forall>cat. map_of (gameRooms s1) g = Some cat \<longrightarrow> distinct (map fst cat)"
    by (auto simp: wfDir_def distinctKeys_def list_all_iff dest!: map_of_SomeD)
  have sub: "set (map fst (gameRooms s1)) \<subseteq> dom (map_of (gameRooms s1))"
    by (simp add: dom_map_of_conv_image_fst)
  from sweepGames_effect [OF d sub k, of now] obtain s'
    where "sweepGames now (map fst (gameRooms s1)) s1 = Inr s'" by blast
  with 1 show ?thesis by (simp add: cleanup_def cleanupPlayers_def cleanupRooms_def)
qed

lemma enabledRun_threeJoins: "enabledRun threeJoins (initial 0)"
  by (simp add: threeJoins_def initial_def connection_def socket_open_def socket_join_def
      joinGame_def Let_def received_def sent_def socket_emit_def socket_to_emit_def members_def
      truthy_def generateRoomId_def toUpperCase_def toUpperCase_char_def substring_def objLit_def)

lemma reachable_exRoom: "reachable exRoom"
  by (rule run_reachable [OF reachable_initial enabledRun_threeJoins exRoom_run])

lemma reachable_exLater: "reachable exLater"
proof (rule reachable_step [OF reachable_exRoom])
  show "enabled (Update 1000000 ''b'' (Some ''4FZYO8'') (Obj [(''x'', Num 7)])) exRoom"
    by (simp add: exRoom_fields)
  show "step (Update 1000000 ''b'' (Some ''4FZYO8'') (Obj [(''x'', Num 7)])) exRoom = Inr exLater"
    by (simp add: exLater_def)
qed

lemma run_append:
  "run (es @ fs) s = (case run es s of Inl err \<Rightarrow> Inl err | Inr s' \<Rightarrow> run fs s')"
  by (induction es arbitrary: s) (auto split: sum.splits)

lemma enabledRun_append:
  "enabledRun (es @ fs) s =
     (enabledRun es s \<and> (case run es s of Inl err \<Rightarrow> True | Inr s' \<Rightarrow> enabledRun fs s'))"
  by (induction es arbitrary: s) (auto split: sum.splits)




lemma sweptRun_run:
  "enabledRun sweptRun (initial 0)" "run sweptRun (initial 0) = Inr exSwept"
  by (simp_all add: sweptRun_def exSwept_def run_append enabledRun_append enabledRun_threeJoins
      exRoom_run exRoom_fields gameEvent_def Let_def truthy_def io_to_emit_def received_def
      sent_def members_def cleanup_def cleanupPlayers_def cleanupRooms_def
      INACTIVITY_TIMEOUT_def)

lemma exSwept_fields:
  "gameRooms exSwept = []"
  "activePlayers exSwept =
     [(''a'', \<lparr>ap_id = ''a'', ap_roomId = Some ''4FZYO8'', ap_gameId = Some ''demo'',
              ap_joinedAt = 0, ap_lastActivity = 1000000\<rparr>),
      (''b'', \<lparr>ap_id = ''b'', ap_roomId = Some ''4FZYO8'', ap_gameId = Some ''demo'',
              ap_joinedAt = 2, ap_lastActivity = 1000000\<rparr>),
      (''c'', \<lparr>ap_id = ''c'', ap_roomId = Some ''LOBBY'', ap_gameId = Some ''demo'',
              ap_joinedAt = 4, ap_lastActivity = 1000000\<rparr>)]"
  "sockets exSwept = [''a'', ''b'', ''c'']"
  "adapter exSwept ''4FZYO8'' = [''a'', ''b'']"
  by (simp_all add: sweptRun_def exSwept_def run_append
      exRoom_run exRoom_fields gameEvent_def Let_def truthy_def io_to_emit_def received_def
      sent_def members_def cleanup_def cleanupPlayers_def cleanupRooms_def
      INACTIVITY_TIMEOUT_def)













section \<open>Joins, disconnects and sweeps in reachable states\<close>

text \<open>
  Claim C2: in every state the server reaches, a connected socket that joins a room is
  sent one \<open>playerJoined\<close> for each player the room already had, with that player's
  stored snapshot: none twice, none left out, none for the joiner itself, whatever the
  order of the players. With \<open>n\<close> such players, and the joiner not among them, that is
  \<open>n\<close> messages.
\<close>

theorem join_backfill_exactly_once:
  assumes "enabledRun evs (initial t)" and "run evs (initial t) = Inr s"
      and "sid \<in> set (sockets s)"
  shows "\<exists>s'. joinGame now rendering sid gameId roomId playerData s = Inr s'
         \<and> playerJoinedTo sid (emitted s s')
             = map (\<lambda>(i, snap). (i, Obj snap))
                 (filter (\<lambda>e. fst e \<noteq> sid) (preExisting s gameId (targetRoom rendering roomId)))
         \<and> distinct (map fst (playerJoinedTo sid (emitted s s')))
         \<and> set (map fst (playerJoinedTo sid (emitted s s')))
             = fst ` set (preExisting s gameId (targetRoom rendering roomId)) - {sid}
         \<and> (sid \<notin> fst ` set (preExisting s gameId (targetRoom rendering roomId)) \<longrightarrow>
              length (playerJoinedTo sid (emitted s s'))
                = length (preExisting s gameId (targetRoom rendering roomId)))"
proof -
  let ?pre = "preExisting s gameId (targetRoom rendering roomId)"
  from run_reachable [OF reachable_initial assms(1,2)] have r: "reachable s" .
  from reachable_connInv [OF r] assms(3) have "sid \<in> fst ` set (activePlayers s)"
    by (simp add: connInv_def)
  then obtain p where p: "map_of (activePlayers s) sid = Some p"
    by (cases "map_of (activePlayers s) sid") (auto simp: map_of_eq_None_iff)
  from reachable_directory [OF r] have "wfDir s" by simp
  then have dp: "distinct (map fst ?pre)" by (rule preExisting_distinct)
  from joinGame_outbox [OF p, of now rendering gameId roomId playerData]
  obtain s' n where s': "joinGame now rendering sid gameId roomId playerData s = Inr s'"
    and ob: "outbox s' = outbox s
        @ [(sid, RoomJoined (targetRoom rendering roomId) gameId sid n)]
        @ map (\<lambda>t. (t, PlayerJoined sid playerData))
              (filter (\<lambda>t. t \<noteq> sid) (adapter s (targetRoom rendering roomId)))
        @ map (\<lambda>(i, pl). (sid, PlayerJoined i (Obj pl))) (filter (\<lambda>e. fst e \<noteq> sid) ?pre)"
    by blast
  have pj: "playerJoinedTo sid (emitted s s')
            = map (\<lambda>(i, snap). (i, Obj snap)) (filter (\<lambda>e. fst e \<noteq> sid) ?pre)"
    by (simp add: emitted_def ob playerJoinedTo_append playerJoinedTo_others playerJoinedTo_backfill)
  have keys: "map fst (playerJoinedTo sid (emitted s s')) = filter (\<lambda>i. i \<noteq> sid) (map fst ?pre)"
    by (simp add: pj filter_map comp_def case_prod_unfold)
  have d: "distinct (map fst (playerJoinedTo sid (emitted s s')))"
    using dp by (simp add: keys)
  have st: "set (map fst (playerJoinedTo sid (emitted s s'))) = fst ` set ?pre - {sid}"
    by (auto simp: keys)
  have len: "sid \<notin> fst ` set ?pre \<longrightarrow> length (playerJoinedTo sid (emitted s s')) = length ?pre"
  proof
    assume "sid \<notin> fst ` set ?pre"
    then have "filter (\<lambda>e. fst e \<noteq> sid) ?pre = ?pre" by (auto simp: filter_id_conv)
    then show "length (playerJoinedTo sid (emitted s s')) = length ?pre" by (simp add: pj)
  qed
  from s' pj d st len show ?thesis by blast
qed

theorem join_backfill_exactly_once_witness:
  "enabledRun beforeRun (initial 0) \<and> run beforeRun (initial 0) = Inr exBefore
   \<and> ''b'' \<in> set (sockets exBefore)
   \<and> preExisting exBefore ''demo'' ''4FZYO8''
     = [(''a'', [(''id'', Str ''a''), (''joinedAt'', Num 1), (''lastActivity'', Num 1), (''x'', Num 0)])]
   \<and> (\<exists>s'. joinGame 3 ''0.zzzzzz'' ''b'' ''demo'' (Some ''4FZYO8'') (Obj [(''x'', Num 5)]) exBefore = Inr s'
         \<and> playerJoinedTo ''b'' (emitted exBefore s')
           = [(''a'', Obj [(''id'', Str ''a''), (''joinedAt'', Num 1), (''lastActivity'', Num 1),
                          (''x'', Num 0)])])"
proof -
  have t: "targetRoom ''0.zzzzzz'' (Some ''4FZYO8'') = ''4FZYO8''"
    by (simp add: targetRoom_def truthy_def)
  have 1: "''b'' \<in> set (sockets exBefore)" by (simp add: exBefore_fields exJoined_fields)
  have 2: "preExisting exBefore ''demo'' ''4FZYO8''
     = [(''a'', [(''id'', Str ''a''), (''joinedAt'', Num 1), (''lastActivity'', Num 1), (''x'', Num 0)])]"
    by (simp add: preExisting_def lookupRoom_def exBefore_fields exJoined_fields)
  from join_backfill_exactly_once [OF beforeRun_run 1, of 3 "''0.zzzzzz''" "''demo''" "Some ''4FZYO8''"
      "Obj [(''x'', Num 5)]"] beforeRun_run 1 2
  show ?thesis by (auto simp: t)
qed

text \<open>
  Claim C3, amended: when a socket disconnects whose record names, with a room id and a
  game id that are not empty, a room that exists in the directory, its player record is
  removed, it is removed from the room's players, the other members of the room's
  broadcast group get \<open>playerLeft\<close>, the room is deleted exactly when it has no player
  left, and its category is deleted exactly when it then has no room left; other rooms
  are untouched. When the room the record names no longer exists (the room sweep has
  closed it), only the player record is removed: the directory is as before and nothing
  is emitted. Every disconnect keeps the invariant that a room has a player and a
  category has a room (\<open>dirInv\<close>).
\<close>

theorem disconnect_cascade:
  assumes "map_of (activePlayers s) sid = Some p"
      and "ap_roomId p = Some r" and "ap_gameId p = Some g"
  shows "map_of (activePlayers (disconnect now sid s)) sid = None
     \<and> (r \<noteq> [] \<and> g \<noteq> [] \<and> map_of (gameRooms s) g = Some cat \<and> map_of cat r = Some room0 \<longrightarrow>
          lookupRoom (disconnect now sid s) g r =
             (if AList.delete sid (players room0) = [] then None
              else Some (room0\<lparr>players := AList.delete sid (players room0)\<rparr>))
        \<and> map_of (AList.delete sid (players room0)) sid = None
        \<and> emitted s (disconnect now sid s) =
             map (\<lambda>t. (t, PlayerLeft sid now)) (filter (\<lambda>t. t \<noteq> sid) (adapter s r))
        \<and> (map_of (gameRooms (disconnect now sid s)) g = None \<longleftrightarrow>
             AList.delete sid (players room0) = [] \<and> AList.delete r cat = [])
        \<and> (\<forall>g' r'. g' \<noteq> g \<or> r' \<noteq> r \<longrightarrow>
             lookupRoom (disconnect now sid s) g' r' = lookupRoom s g' r'))
     \<and> (lookupRoom s g r = None \<longrightarrow>
          gameRooms (disconnect now sid s) = gameRooms s
        \<and> emitted s (disconnect now sid s) = [])
     \<and> (dirInv s \<longrightarrow> dirInv (disconnect now sid s))"
proof -
  have 1: "map_of (activePlayers (disconnect now sid s)) sid = None"
    by (simp add: disconnect_activePlayers AList.delete_conv')
  have 2: "r \<noteq> [] \<and> g \<noteq> [] \<and> map_of (gameRooms s) g = Some cat \<and> map_of cat r = Some room0 \<longrightarrow>
          lookupRoom (disconnect now sid s) g r =
             (if AList.delete sid (players room0) = [] then None
              else Some (room0\<lparr>players := AList.delete sid (players room0)\<rparr>))
        \<and> map_of (AList.delete sid (players room0)) sid = None
        \<and> emitted s (disconnect now sid s) =
             map (\<lambda>t. (t, PlayerLeft sid now)) (filter (\<lambda>t. t \<noteq> sid) (adapter s r))
        \<and> (map_of (gameRooms (disconnect now sid s)) g = None \<longleftrightarrow>
             AList.delete sid (players room0) = [] \<and> AList.delete r cat = [])
        \<and> (\<forall>g' r'. g' \<noteq> g \<or> r' \<noteq> r \<longrightarrow>
             lookupRoom (disconnect now sid s) g' r' = lookupRoom s g' r')"
  proof (intro impI, elim conjE)
    assume h: "r \<noteq> []" "g \<noteq> []" "map_of (gameRooms s) g = Some cat" "map_of cat r = Some room0"
    note m = disconnect_member [OF assms h, of now]
    note g = m(1)
    have a: "lookupRoom (disconnect now sid s) g r =
             (if AList.delete sid (players room0) = [] then None
              else Some (room0\<lparr>players := AList.delete sid (players room0)\<rparr>))"
      by (simp add: lookupRoom_def g AList.update_conv' AList.delete_conv')
    have b: "map_of (AList.delete sid (players room0)) sid = None"
      by (simp add: AList.delete_conv')
    have c: "emitted s (disconnect now sid s) =
             map (\<lambda>t. (t, PlayerLeft sid now)) (filter (\<lambda>t. t \<noteq> sid) (adapter s r))"
      by (simp add: emitted_def m(2))
    have d: "map_of (gameRooms (disconnect now sid s)) g = None \<longleftrightarrow>
             AList.delete sid (players room0) = [] \<and> AList.delete r cat = []"
      by (simp add: g AList.update_conv' AList.delete_conv')
    have e: "\<forall>g' r'. g' \<noteq> g \<or> r' \<noteq> r \<longrightarrow>
             lookupRoom (disconnect now sid s) g' r' = lookupRoom s g' r'"
      using h(3,4)
      by (auto simp: lookupRoom_def g AList.update_conv' AList.delete_conv' delete_Nil_other
          split: option.splits)
    show "lookupRoom (disconnect now sid s) g r =
             (if AList.delete sid (players room0) = [] then None
              else Some (room0\<lparr>players := AList.delete sid (players room0)\<rparr>))
        \<and> map_of (AList.delete sid (players room0)) sid = None
        \<and> emitted s (disconnect now sid s) =
             map (\<lambda>t. (t, PlayerLeft sid now)) (filter (\<lambda>t. t \<noteq> sid) (adapter s r))
        \<and> (map_of (gameRooms (disconnect now sid s)) g = None \<longleftrightarrow>
             AList.delete sid (players room0) = [] \<and> AList.delete r cat = [])
        \<and> (\<forall>g' r'. g' \<noteq> g \<or> r' \<noteq> r \<longrightarrow>
             lookupRoom (disconnect now sid s) g' r' = lookupRoom s g' r')"
      by (intro conjI) (rule a, rule b, rule c, rule d, rule e)
  qed
  have 3: "lookupRoom s g r = None \<longrightarrow>
          gameRooms (disconnect now sid s) = gameRooms s
        \<and> emitted s (disconnect now sid s) = []"
    using disconnect_no_room [OF assms, of now] by (simp add: emitted_def)
  have 4: "dirInv s \<longrightarrow> dirInv (disconnect now sid s)"
    by (simp add: disconnect_dirInv)
  show ?thesis by (intro conjI) (rule 1, rule 2, rule 3, rule 4)
qed

theorem disconnect_cascade_witness:
  "map_of (activePlayers exRoom) ''a''
     = Some \<lparr>ap_id = ''a'', ap_roomId = Some ''4FZYO8'', ap_gameId = Some ''demo'',
              ap_joinedAt = 0, ap_lastActivity = 0\<rparr>
   \<and> map_of (activePlayers (disconnect 9 ''a'' exRoom)) ''a'' = None
   \<and> map_option players (lookupRoom (disconnect 9 ''a'' exRoom) ''demo'' ''4FZYO8'')
       = Some [(''b'', [(''id'', Str ''b''), (''joinedAt'', Num 3), (''lastActivity'', Num 3),
                       (''x'', Num 5)])]
   \<and> emitted exRoom (disconnect 9 ''a'' exRoom) = [(''b'', PlayerLeft ''a'' 9)]
   \<and> map_of (gameRooms (disconnect 9 ''a'' exRoom)) ''demo'' \<noteq> None
   \<and> dirInv exRoom \<and> dirInv (disconnect 9 ''a'' exRoom)
   \<and> map_of (activePlayers exSwept) ''b''
     = Some \<lparr>ap_id = ''b'', ap_roomId = Some ''4FZYO8'', ap_gameId = Some ''demo'',
              ap_joinedAt = 2, ap_lastActivity = 1000000\<rparr>
   \<and> lookupRoom exSwept ''demo'' ''4FZYO8'' = None
   \<and> map_of (activePlayers (disconnect 2000001 ''b'' exSwept)) ''b'' = None
   \<and> gameRooms (disconnect 2000001 ''b'' exSwept) = gameRooms exSwept
   \<and> emitted exSwept (disconnect 2000001 ''b'' exSwept) = []"
proof -
  let ?p = "\<lparr>ap_id = ''a'', ap_roomId = Some ''4FZYO8'', ap_gameId = Some ''demo'',
              ap_joinedAt = 0, ap_lastActivity = 0\<rparr>"
  let ?q = "\<lparr>ap_id = ''b'', ap_roomId = Some ''4FZYO8'', ap_gameId = Some ''demo'',
              ap_joinedAt = 2, ap_lastActivity = 1000000\<rparr>"
  let ?room = "\<lparr>room_roomId = ''4FZYO8'', room_gameId = ''demo'',
          players =
            [(''a'', [(''id'', Str ''a''), (''joinedAt'', Num 1), (''lastActivity'', Num 1), (''x'', Num 0)]),
             (''b'', [(''id'', Str ''b''), (''joinedAt'', Num 3), (''lastActivity'', Num 3), (''x'', Num 5)])],
          createdAt = 1, lastActivity = 1\<rparr>"
  let ?cat = "[(''4FZYO8'', ?room),
        (''LOBBY'',
         \<lparr>room_roomId = ''LOBBY'', room_gameId = ''demo'',
          players = [(''c'', [(''id'', Str ''c''), (''joinedAt'', Num 5), (''lastActivity'', Num 5)])],
          createdAt = 5, lastActivity = 5\<rparr>)]"
  have 1: "map_of (activePlayers exRoom) ''a'' = Some ?p" by (simp add: exRoom_fields)
  have 2: "ap_roomId ?p = Some ''4FZYO8''" "ap_gameId ?p = Some ''demo''" by simp_all
  have 3: "map_of (gameRooms exRoom) ''demo'' = Some ?cat" by (simp add: exRoom_fields)
  have 4: "map_of ?cat ''4FZYO8'' = Some ?room" by simp
  have d: "dirInv exRoom" by (simp add: dirInv_def catOK_def roomOK_def exRoom_fields)
  have 5: "map_of (activePlayers exSwept) ''b'' = Some ?q" by (simp add: exSwept_fields)
  have 6: "ap_roomId ?q = Some ''4FZYO8''" "ap_gameId ?q = Some ''demo''" by simp_all
  have 7: "lookupRoom exSwept ''demo'' ''4FZYO8'' = None"
    by (simp add: lookupRoom_def exSwept_fields)
  from disconnect_cascade [OF 1 2, of 9 ?cat ?room] 1 3 4 d
  have A: "map_of (activePlayers (disconnect 9 ''a'' exRoom)) ''a'' = None
   \<and> map_option players (lookupRoom (disconnect 9 ''a'' exRoom) ''demo'' ''4FZYO8'')
       = Some [(''b'', [(''id'', Str ''b''), (''joinedAt'', Num 3), (''lastActivity'', Num 3),
                       (''x'', Num 5)])]
   \<and> emitted exRoom (disconnect 9 ''a'' exRoom) = [(''b'', PlayerLeft ''a'' 9)]
   \<and> map_of (gameRooms (disconnect 9 ''a'' exRoom)) ''demo'' \<noteq> None
   \<and> dirInv (disconnect 9 ''a'' exRoom)"
    by (simp add: exRoom_fields)
  from disconnect_cascade [OF 5 6, of 2000001] 7
  have B: "map_of (activePlayers (disconnect 2000001 ''b'' exSwept)) ''b'' = None
   \<and> gameRooms (disconnect 2000001 ''b'' exSwept) = gameRooms exSwept
   \<and> emitted exSwept (disconnect 2000001 ''b'' exSwept) = []"
    by simp
  from A B 1 d 5 7 show ?thesis by simp
qed

text \<open>
  Claim C3 as it stands fails after a room sweep: \<open>b\<close>'s record still names room "4FZYO8",
  which the sweep has deleted, \<open>a\<close> is still in that room's broadcast group, and when \<open>b\<close>
  disconnects nobody gets \<open>playerLeft\<close>.
\<close>

theorem disconnect_swept_room_counterexample:
  "enabledRun sweptRun (initial 0) \<and> run sweptRun (initial 0) = Inr exSwept
   \<and> map_of (activePlayers exSwept) ''b''
       = Some \<lparr>ap_id = ''b'', ap_roomId = Some ''4FZYO8'', ap_gameId = Some ''demo'',
                ap_joinedAt = 2, ap_lastActivity = 1000000\<rparr>
   \<and> adapter exSwept ''4FZYO8'' = [''a'', ''b'']
   \<and> emitted exSwept (socket_disconnect 2000001 ''b'' exSwept) = []"
  by (simp add: sweptRun_run exSwept_fields socket_disconnect_def disconnect_def Let_def
      truthy_def emitted_def socket_close_def received_def)



text \<open>
  Claim C10: in every state the server reaches, the room sweep emits \<open>roomClosed\<close> to
  the group of an idle room and deletes the room, and leaves every player record as it
  was. A member whose record still names the deleted room passes the guard of
  \<open>stateUpdate\<close> and \<open>gameEvent\<close>: the message is broadcast to the group as before, and no
  room is written, so no snapshot is merged.
\<close>

theorem room_sweep_leaves_players:
  assumes "enabledRun evs (initial t)" and "run evs (initial t) = Inr s"
      and "map_of (activePlayers s) sid = Some p"
      and "ap_roomId p = Some r" and "r \<noteq> []" and "ap_gameId p = Some g"
      and "idleRoom now (lookupRoom s g r)"
  shows "\<exists>s'. cleanupRooms now s = Inr s'
      \<and> activePlayers s' = activePlayers s
      \<and> lookupRoom s' g r = None
      \<and> (\<forall>t\<in>set (adapter s r). (t, RoomClosed ''inactivity'' r) \<in> set (emitted s s'))
      \<and> hasRecordedRoom s' sid
      \<and> gameRooms (stateUpdate now' sid (Some r) st s') = gameRooms s'
      \<and> emitted s' (stateUpdate now' sid (Some r) st s')
          = map (\<lambda>t. (t, StateUpdate sid st now')) (filter (\<lambda>t. t \<noteq> sid) (adapter s r))
      \<and> gameRooms (gameEvent now' sid (Some r) ty d s') = gameRooms s'
      \<and> emitted s' (gameEvent now' sid (Some r) ty d s')
          = map (\<lambda>t. (t, GameEvent sid ty d now')) (adapter s r)"
proof -
  from run_reachable [OF reachable_initial assms(1,2)] have "reachable s" .
  from reachable_directory [OF this] have "wfDir s" by simp
  then have d: "distinct (map fst (gameRooms s))"
    and c: "\<forall>g\<in>set (map fst (gameRooms s)). \<forall>cat. map_of (gameRooms s) g = Some cat \<longrightarrow> distinct (map fst cat)"
    by (auto simp: wfDir_def distinctKeys_def list_all_iff dest!: map_of_SomeD)
  have sub: "set (map fst (gameRooms s)) \<subseteq> dom (map_of (gameRooms s))"
    by (simp add: dom_map_of_conv_image_fst)
  from sweepGames_effect [OF d sub c, of now]
  obtain s' ms where h: "cleanupRooms now s = Inr s'"
      "activePlayers s' = activePlayers s" "adapter s' = adapter s"
      "\<And>g r. lookupRoom s' g r =
            (if g \<in> set (map fst (gameRooms s)) \<and> idleRoom now (lookupRoom s g r) then None
             else lookupRoom s g r)"
      "outbox s' = outbox s @ ms"
      "\<And>g r. g \<in> set (map fst (gameRooms s)) \<Longrightarrow> idleRoom now (lookupRoom s g r) \<Longrightarrow>
            (\<forall>t\<in>set (adapter s r). (t, RoomClosed ''inactivity'' r) \<in> set ms)"
    unfolding cleanupRooms_def by blast
  from assms(7) have gk: "g \<in> set (map fst (gameRooms s))"
    by (auto simp: idleRoom_def lookupRoom_def split: option.splits dest!: map_of_SomeD
        intro: rev_image_eqI)
  have 1: "lookupRoom s' g r = None" using h(4) [of g r] gk assms(7) by simp
  have 2: "\<forall>t\<in>set (adapter s r). (t, RoomClosed ''inactivity'' r) \<in> set (emitted s s')"
    using h(6) [OF gk assms(7)] by (simp add: emitted_def h(5))
  have p': "map_of (activePlayers s') sid = Some p" using assms(3) h(2) by simp
  have 3: "hasRecordedRoom s' sid"
    using p' assms(4,5) by (simp add: hasRecordedRoom_def truthy_def)
  have 4: "gameRooms (stateUpdate now' sid (Some r) st s') = gameRooms s'"
    using stateUpdate_no_room [OF p', of "Some r" now' st] 1 assms(6) by (simp add: keyOf_def)
  have 5: "emitted s' (stateUpdate now' sid (Some r) st s')
          = map (\<lambda>t. (t, StateUpdate sid st now')) (filter (\<lambda>t. t \<noteq> sid) (adapter s r))"
    by (simp add: emitted_def stateUpdate_outbox [OF 3] members_def h(3))
  have 6: "emitted s' (gameEvent now' sid (Some r) ty d s')
          = map (\<lambda>t. (t, GameEvent sid ty d now')) (adapter s r)"
    by (simp add: emitted_def gameEvent_outbox [OF 3] members_def h(3))
  from h(1,2) 1 2 3 4 5 6 gameEvent_gameRooms show ?thesis by blast
qed

theorem room_sweep_leaves_players_witness:
  "enabledRun threeJoins (initial 0) \<and> run threeJoins (initial 0) = Inr exRoom
   \<and> idleRoom 2000000 (lookupRoom exRoom ''demo'' ''4FZYO8'')
   \<and> (\<exists>s'. cleanupRooms 2000000 exRoom = Inr s'
        \<and> activePlayers s' = activePlayers exRoom
        \<and> lookupRoom s' ''demo'' ''4FZYO8'' = None
        \<and> (''b'', RoomClosed ''inactivity'' ''4FZYO8'') \<in> set (emitted exRoom s')
        \<and> hasRecordedRoom s' ''a''
        \<and> gameRooms (stateUpdate 2000001 ''a'' (Some ''4FZYO8'') (Obj [(''x'', Num 1)]) s') = gameRooms s'
        \<and> emitted s' (stateUpdate 2000001 ''a'' (Some ''4FZYO8'') (Obj [(''x'', Num 1)]) s')
            = [(''b'', StateUpdate ''a'' (Obj [(''x'', Num 1)]) 2000001)]
        \<and> emitted s' (gameEvent 2000001 ''a'' (Some ''4FZYO8'') (Str ''jump'') Null s')
            = [(''a'', GameEvent ''a'' (Str ''jump'') Null 2000001),
               (''b'', GameEvent ''a'' (Str ''jump'') Null 2000001)])"
proof -
  let ?p = "\<lparr>ap_id = ''a'', ap_roomId = Some ''4FZYO8'', ap_gameId = Some ''demo'',
              ap_joinedAt = 0, ap_lastActivity = 0\<rparr>"
  note w = enabledRun_threeJoins exRoom_run
  have 1: "map_of (activePlayers exRoom) ''a'' = Some ?p" by (simp add: exRoom_fields)
  have 2: "ap_roomId ?p = Some ''4FZYO8''" "''4FZYO8'' \<noteq> []" "ap_gameId ?p = Some ''demo''"
    by simp_all
  have i: "idleRoom 2000000 (lookupRoom exRoom ''demo'' ''4FZYO8'')"
    by (simp add: idleRoom_def lookupRoom_def exRoom_fields INACTIVITY_TIMEOUT_def)
  from room_sweep_leaves_players [OF w 1 2 i, of 2000001 "Obj [(''x'', Num 1)]" "Str ''jump''" Null]
  obtain s' where h: "cleanupRooms 2000000 exRoom = Inr s'"
      "activePlayers s' = activePlayers exRoom"
      "lookupRoom s' ''demo'' ''4FZYO8'' = None"
      "\<forall>t\<in>set (adapter exRoom ''4FZYO8''). (t, RoomClosed ''inactivity'' ''4FZYO8'') \<in> set (emitted exRoom s')"
      "hasRecordedRoom s' ''a''"
      "gameRooms (stateUpdate 2000001 ''a'' (Some ''4FZYO8'') (Obj [(''x'', Num 1)]) s') = gameRooms s'"
      "emitted s' (stateUpdate 2000001 ''a'' (Some ''4FZYO8'') (Obj [(''x'', Num 1)]) s')
          = map (\<lambda>t. (t, StateUpdate ''a'' (Obj [(''x'', Num 1)]) 2000001))
              (filter (\<lambda>t. t \<noteq> ''a'') (adapter exRoom ''4FZYO8''))"
      "emitted s' (gameEvent 2000001 ''a'' (Some ''4FZYO8'') (Str ''jump'') Null s')
          = map (\<lambda>t. (t, GameEvent ''a'' (Str ''jump'') Null 2000001)) (adapter exRoom ''4FZYO8'')"
    by blast
  from h(4) have b: "(''b'', RoomClosed ''inactivity'' ''4FZYO8'') \<in> set (emitted exRoom s')"
    by (simp add: exRoom_fields)
  from h(7) have u: "emitted s' (stateUpdate 2000001 ''a'' (Some ''4FZYO8'') (Obj [(''x'', Num 1)]) s')
            = [(''b'', StateUpdate ''a'' (Obj [(''x'', Num 1)]) 2000001)]"
    by (simp add: exRoom_fields)
  from h(8) have e: "emitted s' (gameEvent 2000001 ''a'' (Some ''4FZYO8'') (Str ''jump'') Null s')
            = [(''a'', GameEvent ''a'' (Str ''jump'') Null 2000001),
               (''b'', GameEvent ''a'' (Str ''jump'') Null 2000001)]"
    by (simp add: exRoom_fields)
  from w i h(1,2,3,5,6) b u e show ?thesis by blast
qed

end
